theory Spec2Isabelle
  imports Complex_Main
begin

section \<open>Numbers\<close>

text \<open>
  The analytics of \<^verbatim>\<open>scoring.py\<close> and \<^verbatim>\<open>plot_analysis.py\<close> run on binary64 numbers
  (numpy and pandas). A number is modelled as a real or one of the three special values.
  The arithmetic follows IEEE 754: each operation on finite numbers rounds its exact result
  to the nearest binary64 number, ties to even, and gives an infinity when the rounded
  result is beyond the finite range; the special values go in and come out as the standard
  says (division by zero, the logarithm outside its domain, infinity minus infinity). The
  sign of zero is not modelled: \<open>Fin 0\<close> stands for both zeros, and divides as \<open>+0\<close>.
  numpy reports an invalid operation, a division by zero or an overflow as a warning,
  never as an exception, so these operations are total.
\<close>

datatype float64 = Fin real | PInf | NInf | NaN

text \<open>
  The finite binary64 numbers are the numbers \<open>m * 2^e\<close> with an integer mantissa
  \<open>\<bar>m\<bar> < 2^53\<close> and an exponent \<open>e \<ge> -1074\<close> that lie strictly between \<open>-2^1024\<close> and
  \<open>2^1024\<close>. \<open>Fin r\<close> stands for a number of the program only when \<open>r\<close> is one of them.
\<close>

definition range_bound :: real where
  "range_bound = 2 ^ 1024"

definition has_mantissa :: "real \<Rightarrow> bool" where
  "has_mantissa x =
     (\<exists>m e :: int. x = real_of_int m * 2 powr real_of_int e \<and> \<bar>m\<bar> < 2 ^ 53 \<and> - 1074 \<le> e)"

definition is_float :: "real \<Rightarrow> bool" where
  "is_float x = (has_mantissa x \<and> \<bar>x\<bar> < range_bound)"

text \<open>
  Rounding to nearest, ties to even. \<open>expo x\<close> is the binary exponent of \<open>x\<close>, not below
  that of the least normal number; \<open>ulp x\<close> is the spacing of the binary64 numbers around
  \<open>x\<close>; \<open>rne\<close> rounds a real to the nearest integer, a tie to the even one. \<open>round_real\<close>
  rounds as if the exponent had no upper limit, and \<open>round64\<close> turns a rounded result
  beyond the finite range into an infinity.
\<close>

definition expo :: "real \<Rightarrow> int" where
  "expo x = max \<lfloor>log 2 \<bar>x\<bar>\<rfloor> (- 1022)"

definition ulp :: "real \<Rightarrow> real" where
  "ulp x = 2 powr (real_of_int (expo x) - 52)"

definition rne :: "real \<Rightarrow> int" where
  "rne q =
     (let f = \<lfloor>q\<rfloor>; r = q - real_of_int f
      in if r < 1 / 2 then f else if 1 / 2 < r then f + 1 else if even f then f else f + 1)"

definition round_real :: "real \<Rightarrow> real" where
  "round_real x = (if x = 0 then 0 else ulp x * real_of_int (rne (x / ulp x)))"

definition overflow :: "real \<Rightarrow> float64" where
  "overflow r = (if range_bound \<le> r then PInf else if r \<le> - range_bound then NInf else Fin r)"

definition round64 :: "real \<Rightarrow> float64" where
  "round64 x = overflow (round_real x)"

text \<open>The least positive and the largest finite binary64 number.\<close>

definition min_float :: real where
  "min_float = 2 powr (- 1074)"

definition max_float :: real where
  "max_float = (2 ^ 53 - 1) * 2 ^ 971"

text \<open>The exceptions that reach the caller.\<close>

datatype error = ValueError | IndexError

text \<open>A price the spec calls valid: finite and strictly positive.\<close>

fun positive_finite :: "float64 \<Rightarrow> bool" where
  "positive_finite (Fin x) = (0 < x)"
| "positive_finite _ = False"

text \<open>
  The same for a real number that stands for a price: strictly positive and within the
  finite range (\<open>valid_price\<close>), and moreover a binary64 number (\<open>float_price\<close>), as every
  entry of a numpy array of prices is.
\<close>

definition valid_price :: "real \<Rightarrow> bool" where
  "valid_price r = (0 < r \<and> r < range_bound)"

definition float_price :: "real \<Rightarrow> bool" where
  "float_price r = (0 < r \<and> is_float r)"


text \<open>The infinity that a non-zero finite number of the given sign turns into; zero gives NaN.\<close>

definition signed_inf :: "real \<Rightarrow> float64" where
  "signed_inf s = (if s = 0 then NaN else if 0 < s then PInf else NInf)"

fun fl_neg :: "float64 \<Rightarrow> float64" where
  "fl_neg (Fin a) = Fin (- a)"
| "fl_neg PInf = NInf"
| "fl_neg NInf = PInf"
| "fl_neg NaN = NaN"

fun fl_add :: "float64 \<Rightarrow> float64 \<Rightarrow> float64" where
  "fl_add NaN _ = NaN"
| "fl_add _ NaN = NaN"
| "fl_add (Fin a) (Fin b) = round64 (a + b)"
| "fl_add (Fin _) PInf = PInf"
| "fl_add (Fin _) NInf = NInf"
| "fl_add PInf NInf = NaN"
| "fl_add PInf _ = PInf"
| "fl_add NInf PInf = NaN"
| "fl_add NInf _ = NInf"

definition fl_sub :: "float64 \<Rightarrow> float64 \<Rightarrow> float64" where
  "fl_sub a b = fl_add a (fl_neg b)"

fun fl_mul :: "float64 \<Rightarrow> float64 \<Rightarrow> float64" where
  "fl_mul NaN _ = NaN"
| "fl_mul _ NaN = NaN"
| "fl_mul (Fin a) (Fin b) = round64 (a * b)"
| "fl_mul (Fin a) PInf = signed_inf a"
| "fl_mul (Fin a) NInf = signed_inf (- a)"
| "fl_mul PInf (Fin b) = signed_inf b"
| "fl_mul NInf (Fin b) = signed_inf (- b)"
| "fl_mul PInf PInf = PInf"
| "fl_mul PInf NInf = NInf"
| "fl_mul NInf PInf = NInf"
| "fl_mul NInf NInf = PInf"

fun fl_div :: "float64 \<Rightarrow> float64 \<Rightarrow> float64" where
  "fl_div NaN _ = NaN"
| "fl_div _ NaN = NaN"
| "fl_div (Fin a) (Fin b) = (if b \<noteq> 0 then round64 (a / b) else signed_inf a)"
| "fl_div (Fin _) _ = Fin 0"
| "fl_div PInf (Fin b) = (if 0 \<le> b then PInf else NInf)"
| "fl_div NInf (Fin b) = (if 0 \<le> b then NInf else PInf)"
| "fl_div _ _ = NaN"

text \<open>
  \<^verbatim>\<open>x ** y\<close> for a finite exponent \<open>y\<close> (here always
  \<^verbatim>\<open>annualization_factor / len(prices_arr)\<close>): C's \<^verbatim>\<open>pow\<close>, taken as correctly rounded.
\<close>

definition odd_integer :: "real \<Rightarrow> bool" where
  "odd_integer y = (y = of_int \<lfloor>y\<rfloor> \<and> odd \<lfloor>y\<rfloor>)"

fun fl_pow :: "float64 \<Rightarrow> real \<Rightarrow> float64" where
  "fl_pow (Fin x) y =
     (if y = 0 then Fin 1
      else if 0 < x then round64 (x powr y)
      else if x = 0 then (if 0 < y then Fin 0 else PInf)
      else if y \<noteq> of_int \<lfloor>y\<rfloor> then NaN
      else if odd \<lfloor>y\<rfloor> then round64 (- ((- x) powr y))
      else round64 ((- x) powr y))"
| "fl_pow PInf y = (if y = 0 then Fin 1 else if 0 < y then PInf else Fin 0)"
| "fl_pow NInf y =
     (if y = 0 then Fin 1
      else if 0 < y then (if odd_integer y then NInf else PInf)
      else Fin 0)"
| "fl_pow NaN y = (if y = 0 then Fin 1 else NaN)"

text \<open>
  \<^verbatim>\<open>np.log\<close>: minus infinity at zero, NaN below zero, and the logarithm, taken as
  correctly rounded, of a positive number (it is far inside the finite range).
\<close>

fun np_log :: "float64 \<Rightarrow> float64" where
  "np_log (Fin x) = (if 0 < x then Fin (round_real (ln x)) else if x = 0 then NInf else NaN)"
| "np_log PInf = PInf"
| "np_log NInf = NaN"
| "np_log NaN = NaN"

text \<open>The comparison \<^verbatim>\<open><\<close>: false as soon as one side is NaN.\<close>

fun fl_lt :: "float64 \<Rightarrow> float64 \<Rightarrow> bool" where
  "fl_lt NaN _ = False"
| "fl_lt _ NaN = False"
| "fl_lt (Fin a) (Fin b) = (a < b)"
| "fl_lt _ NInf = False"
| "fl_lt NInf _ = True"
| "fl_lt PInf _ = False"
| "fl_lt (Fin _) PInf = True"

text \<open>\<^verbatim>\<open>np.maximum\<close>: NaN as soon as one side is NaN.\<close>

fun fl_maximum :: "float64 \<Rightarrow> float64 \<Rightarrow> float64" where
  "fl_maximum NaN _ = NaN"
| "fl_maximum _ NaN = NaN"
| "fl_maximum a b = (if fl_lt a b then b else a)"

section \<open>The scorer: \<^verbatim>\<open>scoring.py\<close>\<close>

text \<open>\<^verbatim>\<open>np.maximum.accumulate\<close>: the running maximum, one forward pass.\<close>

fun accumulate_from :: "float64 \<Rightarrow> float64 list \<Rightarrow> float64 list" where
  "accumulate_from m [] = []"
| "accumulate_from m (x # xs) = fl_maximum m x # accumulate_from (fl_maximum m x) xs"

fun maximum_accumulate :: "float64 list \<Rightarrow> float64 list" where
  "maximum_accumulate [] = []"
| "maximum_accumulate (x # xs) = x # accumulate_from x xs"

text \<open>\<^verbatim>\<open>np.max\<close>: raises on an empty array, NaN as soon as one entry is NaN.\<close>

fun np_max :: "float64 list \<Rightarrow> error + float64" where
  "np_max [] = Inl ValueError"
| "np_max (x # xs) = Inr (fold (\<lambda>y m. fl_maximum m y) xs x)"

text \<open>
  \<^verbatim>\<open>annualization_factor / len(prices_arr)\<close>: Python's division of two integers, the
  correctly rounded quotient. The length is at least 2 where it is evaluated. (For a
  factor so large that the quotient is beyond the finite range Python raises
  \<^verbatim>\<open>OverflowError\<close>; such factors are outside this model.)
\<close>

definition true_divide :: "int \<Rightarrow> nat \<Rightarrow> real" where
  "true_divide a n = round_real (real_of_int a / real n)"

text \<open>
  Line 39: \<^verbatim>\<open>(prices_arr[-1] / prices_arr[0]) ** (annualization_factor / len(prices_arr)) - 1\<close>.
  It is evaluated only after the length check, so both reads are in range.
\<close>

definition ann_return :: "float64 list \<Rightarrow> int \<Rightarrow> float64" where
  "ann_return prices_arr annualization_factor =
     fl_sub
       (fl_pow (fl_div (prices_arr ! (length prices_arr - 1)) (prices_arr ! 0))
          (true_divide annualization_factor (length prices_arr)))
       (Fin 1)"

text \<open>Lines 40 and 41: \<^verbatim>\<open>(rolling_max - prices_arr) / rolling_max\<close>, entry by entry.\<close>

definition drawdowns :: "float64 list \<Rightarrow> float64 list" where
  "drawdowns prices_arr =
     map (\<lambda>(m, p). fl_div (fl_sub m p) m) (zip (maximum_accumulate prices_arr) prices_arr)"

text \<open>Line 42.\<close>

definition max_dd :: "float64 list \<Rightarrow> error + float64" where
  "max_dd prices_arr = np_max (drawdowns prices_arr)"

text \<open>
  scikit-learn's \<^verbatim>\<open>LinearRegression().fit(x, y)\<close> and numpy's \<^verbatim>\<open>np.std\<close> are not code
  of this repository. The input check of \<^verbatim>\<open>fit\<close> refuses a target that holds NaN or an
  infinity with a \<^verbatim>\<open>ValueError\<close>: \<open>finite_values\<close> is that check, returning the accepted
  numbers. What the library computes from accepted log prices in lines 45 to 49, the
  pair of \<^verbatim>\<open>slope = model.coef_[0]\<close> and
  \<^verbatim>\<open>noise = np.std(log_prices - model.predict(x))\<close>, is a result of binary64 linear
  algebra that depends on the library's own order of operations. It is not derived
  here: the scorer takes it as a parameter \<open>trend\<close>, a function from the accepted log
  prices to that pair, and every statement about the scorer holds for every such function.
\<close>

fun finite_values :: "float64 list \<Rightarrow> real list option" where
  "finite_values [] = Some []"
| "finite_values (Fin y # ys) = map_option ((#) y) (finite_values ys)"
| "finite_values (_ # ys) = None"

type_synonym trend_fit = "real list \<Rightarrow> float64 \<times> float64"

text \<open>Line 50: \<^verbatim>\<open>slope / noise if noise != 0 else 0\<close>.\<close>

definition slope_to_noise :: "trend_fit \<Rightarrow> real list \<Rightarrow> float64" where
  "slope_to_noise trend log_prices =
     (case trend log_prices of
        (slope, noise) \<Rightarrow> if noise \<noteq> Fin 0 then fl_div slope noise else Fin 0)"

text \<open>
  \<^verbatim>\<open>compute_stock_score\<close>, for a library that behaves as \<open>trend\<close>. The result is the
  exception that reaches the caller or the returned number; \<open>Inr NInf\<close> is the return of
  \<^verbatim>\<open>-np.inf\<close>. The array \<^verbatim>\<open>returns = np.diff(log_prices)\<close> of line 37 is never read and
  is left out. The lines before the fit cannot raise (the array has at least two entries),
  so the first exception possible is the one of \<^verbatim>\<open>fit\<close>.
\<close>

definition compute_stock_score ::
  "trend_fit \<Rightarrow> float64 list \<Rightarrow> float64 \<Rightarrow> float64 \<Rightarrow> float64 \<Rightarrow> int \<Rightarrow> error + float64" where
  "compute_stock_score trend price_series ann_return_weight max_dd_weight slope_to_noise_weight
       annualization_factor =
     (if length price_series < 2 then Inr NInf
      else
        let log_prices = map np_log price_series;
            ann = ann_return price_series annualization_factor
        in case max_dd price_series of
             Inl e \<Rightarrow> Inl e
           | Inr dd \<Rightarrow>
               (case finite_values log_prices of
                  None \<Rightarrow> Inl ValueError
                | Some ys \<Rightarrow>
                    Inr (fl_add
                          (fl_add (fl_mul ann_return_weight ann) (fl_mul max_dd_weight dd))
                          (fl_mul slope_to_noise_weight (slope_to_noise trend ys)))))"

text \<open>
  A library answer used to run the scorer on the constant series 50, 50, 50, 50, where the
  fit is exact: slope 0 and noise 0. On other series it only stands for some answer of
  the library.
\<close>

definition constant_fit :: trend_fit where
  "constant_fit log_prices = (Fin 0, Fin 0)"

text \<open>
  A library answer with a noise other than 0, to run the dividing branch of line 50:
  slope 3 and noise 2.
\<close>

definition sample_fit :: trend_fit where
  "sample_fit log_prices = (Fin 3, Fin 2)"

text \<open>A very small and a very large price, both binary64 numbers.\<close>

definition tiny_price :: real where
  "tiny_price = 1 / 2 ^ 600"

definition huge_price :: real where
  "huge_price = 2 ^ 600"

section \<open>The risk profile: \<^verbatim>\<open>plot_analysis.py\<close>\<close>

text \<open>
  The data frame that \<^verbatim>\<open>calculate_metrics\<close> receives: its index (the dates), its
  \<^verbatim>\<open>Close\<close> column and every other column by name. pandas keeps the index and each
  column at the same length, and the dates of a price series are strictly increasing, so a
  row label stands for one position. The closing prices are read as finite numbers: a
  frame with a missing or an infinite close is outside this model.
\<close>

record 'd frame =
  index :: "'d list"
  Close :: "real list"
  columns :: "string \<rightharpoonup> float64 list"

text \<open>The dictionary \<^verbatim>\<open>stats\<close>, with its four keys.\<close>

record 'd stats =
  max_drawdown_date :: 'd
  max_drawdown_value :: float64
  peak_date :: 'd
  recovery_date :: "'d option"

definition frame_ok :: "'d frame \<Rightarrow> bool" where
  "frame_ok df = (length (index df) = length (Close df) \<and> distinct (index df))"

text \<open>\<^verbatim>\<open>Series.cummax\<close>.\<close>

fun cummax_from :: "real \<Rightarrow> real list \<Rightarrow> real list" where
  "cummax_from m [] = []"
| "cummax_from m (x # xs) = max m x # cummax_from (max m x) xs"

fun cummax :: "real list \<Rightarrow> real list" where
  "cummax [] = []"
| "cummax (x # xs) = x # cummax_from x xs"

text \<open>
  \<^verbatim>\<open>Series.pct_change(periods)\<close> is \<^verbatim>\<open>data / data.shift(periods) - 1\<close>; the shift moves
  every entry \<^verbatim>\<open>periods\<close> rows down and fills the head with NaN, the missing number
  of pandas.
\<close>

definition shift :: "nat \<Rightarrow> float64 list \<Rightarrow> float64 list" where
  "shift periods xs = replicate (min periods (length xs)) NaN @ take (length xs - periods) xs"

definition pct_change :: "nat \<Rightarrow> real list \<Rightarrow> float64 list" where
  "pct_change periods xs =
     map (\<lambda>(a, b). fl_sub (fl_div a b) (Fin 1)) (zip (map Fin xs) (shift periods (map Fin xs)))"

text \<open>
  \<^verbatim>\<open>Series.idxmin\<close> and \<^verbatim>\<open>Series.min\<close> skip NaN. The forward pass keeps the first
  position of the least entry (a later entry replaces it only when strictly less).
  \<^verbatim>\<open>idxmin\<close> raises when no entry is left (an empty or an all-NaN series; older
  versions of pandas answer NaN for the all-NaN series, and the lookup of that label
  raises next), \<^verbatim>\<open>min\<close> is NaN there.
\<close>

fun argmin_from :: "nat \<Rightarrow> (nat \<times> float64) option \<Rightarrow> float64 list \<Rightarrow> (nat \<times> float64) option" where
  "argmin_from i best [] = best"
| "argmin_from i best (x # xs) =
     argmin_from (Suc i)
       (if x = NaN then best
        else case best of
               None \<Rightarrow> Some (i, x)
             | Some (j, m) \<Rightarrow> if fl_lt x m then Some (i, x) else best)
       xs"

definition idxmin :: "'d list \<Rightarrow> float64 list \<Rightarrow> error + 'd" where
  "idxmin idx xs =
     (case argmin_from 0 None xs of None \<Rightarrow> Inl ValueError | Some (i, m) \<Rightarrow> Inr (idx ! i))"

definition series_min :: "float64 list \<Rightarrow> float64" where
  "series_min xs = (case argmin_from 0 None xs of None \<Rightarrow> NaN | Some (i, m) \<Rightarrow> m)"

text \<open>The position of a row label: \<^verbatim>\<open>Index.get_loc\<close> on an index without duplicates.\<close>

definition get_loc :: "'d list \<Rightarrow> 'd \<Rightarrow> nat" where
  "get_loc idx d = length (takeWhile (\<lambda>x. x \<noteq> d) idx)"

text \<open>Lines 71 and 72: the columns \<^verbatim>\<open>Peak\<close> and \<^verbatim>\<open>Drawdown\<close>.\<close>

definition peak_column :: "'d frame \<Rightarrow> real list" where
  "peak_column df = cummax (Close df)"

definition drawdown_column :: "'d frame \<Rightarrow> float64 list" where
  "drawdown_column df =
     map (\<lambda>(c, p). fl_div (fl_sub (Fin c) (Fin p)) (Fin p)) (zip (Close df) (peak_column df))"

text \<open>
  Lines 71 to 77 assign five columns of the frame the caller passed: the object is
  changed in place.
\<close>

definition with_metrics :: "'d frame \<Rightarrow> 'd frame" where
  "with_metrics df =
     df\<lparr>columns := (columns df)
        (''Peak'' \<mapsto> map Fin (peak_column df),
         ''Drawdown'' \<mapsto> drawdown_column df,
         ''Return_1Y'' \<mapsto> pct_change 252 (Close df),
         ''Return_2Y'' \<mapsto> pct_change 504 (Close df),
         ''Return_3Y'' \<mapsto> pct_change (252 * 3) (Close df))\<rparr>"

text \<open>
  Lines 80 to 87, the key statistics. \<open>rows\<close> pairs each date with its close.
  \<^verbatim>\<open>df[df['Close'] == peak_value].index[0]\<close> is the first row of the whole frame whose
  close equals the peak value; \<^verbatim>\<open>df.loc[max_drawdown_date:]\<close> is the frame from the
  trough's row on.
\<close>

definition rows :: "'d frame \<Rightarrow> ('d \<times> real) list" where
  "rows df = zip (index df) (Close df)"

definition key_statistics :: "'d frame \<Rightarrow> error + 'd stats" where
  "key_statistics df =
     (case idxmin (index df) (drawdown_column df) of
        Inl e \<Rightarrow> Inl e
      | Inr trough_date \<Rightarrow>
          let peak_value = peak_column df ! get_loc (index df) trough_date
          in case filter (\<lambda>(d, c). c = peak_value) (rows df) of
               [] \<Rightarrow> Inl IndexError
             | (first_date, c) # rest \<Rightarrow>
                 let post_trough_df = drop (get_loc (index df) trough_date) (rows df);
                     recovery_dates = map fst (filter (\<lambda>(d, c). peak_value \<le> c) post_trough_df)
                 in Inr \<lparr>max_drawdown_date = trough_date,
                         max_drawdown_value = series_min (drawdown_column df),
                         peak_date = first_date,
                         recovery_date =
                           (case recovery_dates of [] \<Rightarrow> None | r # rs \<Rightarrow> Some r)\<rparr>)"

text \<open>
  \<^verbatim>\<open>calculate_metrics\<close>: the first component is the caller's frame as the call leaves it
  (also when the statistics raise, the columns being assigned before), the second the
  exception or the dictionary returned. The frame returned is that same object.
\<close>

definition calculate_metrics :: "'d frame \<Rightarrow> 'd frame \<times> (error + 'd stats)" where
  "calculate_metrics df = (with_metrics df, key_statistics df)"

text \<open>
  The spec's wording of the peak of the maximum drawdown, to compare with the code's: the
  last index where \<^verbatim>\<open>price == runningPeak\<close>, at or before \<^verbatim>\<open>max_drawdown_date\<close>.
  Position 0 always qualifies, so the list is not empty.
\<close>

definition spec_peak_position :: "real list \<Rightarrow> nat \<Rightarrow> nat" where
  "spec_peak_position closes trough =
     last (filter (\<lambda>i. closes ! i = cummax closes ! i) [0..<Suc trough])"
section \<open>Rounding to binary64\<close>

subsection \<open>Rounding to the nearest integer\<close>

lemma rne_of_int: "rne (real_of_int k) = k"
  by (simp add: rne_def)

lemma rne_cases: "rne q = \<lfloor>q\<rfloor> \<or> rne q = \<lfloor>q\<rfloor> + 1"
  by (simp add: rne_def Let_def)

lemma rne_mono: "q \<le> q' \<Longrightarrow> rne q \<le> rne q'"
proof -
  assume le: "q \<le> q'"
  then have fl: "\<lfloor>q\<rfloor> \<le> \<lfloor>q'\<rfloor>" by (rule floor_mono)
  show ?thesis
  proof (cases "\<lfloor>q\<rfloor> = \<lfloor>q'\<rfloor>")
    case True
    with le show ?thesis by (auto simp: rne_def Let_def)
  next
    case False
    with fl have "\<lfloor>q\<rfloor> + 1 \<le> \<lfloor>q'\<rfloor>" by simp
    moreover from rne_cases [of q] have "rne q \<le> \<lfloor>q\<rfloor> + 1" by auto
    moreover from rne_cases [of q'] have "\<lfloor>q'\<rfloor> \<le> rne q'" by auto
    ultimately show ?thesis by linarith
  qed
qed

lemma rne_ge: "real_of_int k \<le> q \<Longrightarrow> k \<le> rne q"
  using rne_mono [of "real_of_int k" q] by (simp add: rne_of_int)

lemma rne_le: "q \<le> real_of_int k \<Longrightarrow> rne q \<le> k"
  using rne_mono [of q "real_of_int k"] by (simp add: rne_of_int)

lemma rne_minus: "rne (- q) = - rne q"
proof (cases "q = real_of_int \<lfloor>q\<rfloor>")
  case True
  define k where "k = \<lfloor>q\<rfloor>"
  from True have qk: "q = real_of_int k" by (simp add: k_def)
  then have "- q = real_of_int (- k)" by simp
  with qk show ?thesis by (simp only: rne_of_int)
next
  case False
  have "real_of_int \<lfloor>q\<rfloor> \<le> q" by simp
  with False have lt: "real_of_int \<lfloor>q\<rfloor> < q" by linarith
  have up: "q < real_of_int \<lfloor>q\<rfloor> + 1" by linarith
  have fm: "\<lfloor>- q\<rfloor> = - \<lfloor>q\<rfloor> - 1"
  proof (rule floor_unique)
    from up have "- real_of_int \<lfloor>q\<rfloor> - 1 \<le> - q" by linarith
    then show "real_of_int (- \<lfloor>q\<rfloor> - 1) \<le> - q" by simp
    from lt have "- q < - real_of_int \<lfloor>q\<rfloor> - 1 + 1" by linarith
    then show "- q < real_of_int (- \<lfloor>q\<rfloor> - 1) + 1" by simp
  qed
  let ?f = "\<lfloor>q\<rfloor>"
  let ?r = "q - real_of_int ?f"
  have rm: "- q - real_of_int \<lfloor>- q\<rfloor> = 1 - ?r" by (simp add: fm)
  have ev: "even (- ?f - 1) \<longleftrightarrow> \<not> even ?f" by simp
  show ?thesis
    unfolding rne_def Let_def rm fm ev
    by auto
qed


lemma rne_near: "\<bar>q - real_of_int k\<bar> < 1 / 2 \<Longrightarrow> rne q = k"
proof -
  assume a: "\<bar>q - real_of_int k\<bar> < 1 / 2"
  show ?thesis
  proof (cases "real_of_int k \<le> q")
    case True
    have f: "\<lfloor>q\<rfloor> = k"
    proof (rule floor_unique)
      from True show "real_of_int k \<le> q" .
      from a show "q < real_of_int k + 1" by linarith
    qed
    from a True have "q - real_of_int k < 1 / 2" by linarith
    with f show ?thesis by (simp add: rne_def Let_def)
  next
    case False
    have f: "\<lfloor>q\<rfloor> = k - 1"
    proof (rule floor_unique)
      from a have "real_of_int k - 1 \<le> q" by linarith
      then show "real_of_int (k - 1) \<le> q" by simp
      from False have "q < real_of_int k - 1 + 1" by linarith
      then show "q < real_of_int (k - 1) + 1" by simp
    qed
    from a False have "1 / 2 < q - (real_of_int k - 1)" by linarith
    then have r: "1 / 2 < q - real_of_int (k - 1)" by simp
    then have "\<not> q - real_of_int (k - 1) < 1 / 2" by linarith
    with f r show ?thesis by (simp add: rne_def Let_def)
  qed
qed

lemma rne_nonneg: "0 \<le> q \<Longrightarrow> 0 \<le> rne q"
  using rne_ge [of 0 q] by simp

lemma rne_ge_floor: "\<lfloor>q\<rfloor> \<le> rne q"
  using rne_cases [of q] by auto

subsection \<open>The exponent\<close>

lemma expo_ge: "- 1022 \<le> expo x"
  by (simp add: expo_def)

lemma expo_minus: "expo (- x) = expo x"
  by (simp add: expo_def)

lemma floor_log_bounds:
  assumes "x \<noteq> 0"
  shows "2 powr real_of_int \<lfloor>log 2 \<bar>x\<bar>\<rfloor> \<le> \<bar>x\<bar>"
    and "\<bar>x\<bar> < 2 powr (real_of_int \<lfloor>log 2 \<bar>x\<bar>\<rfloor> + 1)"
proof -
  from assms have pos: "0 < \<bar>x\<bar>" by simp
  have "\<lfloor>log 2 \<bar>x\<bar>\<rfloor> = \<lfloor>log 2 \<bar>x\<bar>\<rfloor>" ..
  with floor_log_eq_powr_iff [OF pos, of 2 "\<lfloor>log 2 \<bar>x\<bar>\<rfloor>"]
  have "2 powr real_of_int \<lfloor>log 2 \<bar>x\<bar>\<rfloor> \<le> \<bar>x\<bar> \<and> \<bar>x\<bar> < 2 powr (real_of_int \<lfloor>log 2 \<bar>x\<bar>\<rfloor> + 1)"
    by simp
  then show "2 powr real_of_int \<lfloor>log 2 \<bar>x\<bar>\<rfloor> \<le> \<bar>x\<bar>"
    and "\<bar>x\<bar> < 2 powr (real_of_int \<lfloor>log 2 \<bar>x\<bar>\<rfloor> + 1)" by simp_all
qed

lemma expo_upper: "x \<noteq> 0 \<Longrightarrow> \<bar>x\<bar> < 2 powr (real_of_int (expo x) + 1)"
proof -
  assume nz: "x \<noteq> 0"
  have "\<lfloor>log 2 \<bar>x\<bar>\<rfloor> \<le> expo x" by (simp add: expo_def)
  then have "2 powr (real_of_int \<lfloor>log 2 \<bar>x\<bar>\<rfloor> + 1) \<le> 2 powr (real_of_int (expo x) + 1)"
    by (simp add: powr_le_cancel_iff)
  with floor_log_bounds(2) [OF nz] show ?thesis by linarith
qed

lemma expo_lower: "x \<noteq> 0 \<Longrightarrow> - 1022 < expo x \<Longrightarrow> 2 powr real_of_int (expo x) \<le> \<bar>x\<bar>"
proof -
  assume nz: "x \<noteq> 0" and big: "- 1022 < expo x"
  then have "expo x = \<lfloor>log 2 \<bar>x\<bar>\<rfloor>" by (simp add: expo_def max_def split: if_splits)
  with floor_log_bounds(1) [OF nz] show ?thesis by simp
qed

lemma expo_le:
  assumes "x \<noteq> 0" and "\<bar>x\<bar> < 2 powr (real_of_int k + 1)" and "- 1022 \<le> k"
  shows "expo x \<le> k"
proof -
  from floor_log_bounds(1) [OF assms(1)] assms(2)
  have "2 powr real_of_int \<lfloor>log 2 \<bar>x\<bar>\<rfloor> < 2 powr (real_of_int k + 1)" by linarith
  then have "real_of_int \<lfloor>log 2 \<bar>x\<bar>\<rfloor> < real_of_int k + 1" by (simp add: powr_less_cancel_iff)
  then have "\<lfloor>log 2 \<bar>x\<bar>\<rfloor> \<le> k" by linarith
  with assms(3) show ?thesis by (simp add: expo_def)
qed

lemma expo_ge_powr:
  assumes "x \<noteq> 0" and "2 powr real_of_int k \<le> \<bar>x\<bar>"
  shows "k \<le> expo x"
proof -
  from floor_log_bounds(2) [OF assms(1)] assms(2)
  have "2 powr real_of_int k < 2 powr (real_of_int \<lfloor>log 2 \<bar>x\<bar>\<rfloor> + 1)" by linarith
  then have "real_of_int k < real_of_int \<lfloor>log 2 \<bar>x\<bar>\<rfloor> + 1" by (simp add: powr_less_cancel_iff)
  then have "k \<le> \<lfloor>log 2 \<bar>x\<bar>\<rfloor>" by linarith
  then show ?thesis by (simp add: expo_def)
qed

lemma expo_eq:
  assumes "x \<noteq> 0" and "2 powr real_of_int k \<le> \<bar>x\<bar>" and "\<bar>x\<bar> < 2 powr (real_of_int k + 1)"
    and "- 1022 \<le> k"
  shows "expo x = k"
  using expo_le [OF assms(1) assms(3) assms(4)] expo_ge_powr [OF assms(1) assms(2)] by simp

lemma expo_mono:
  assumes "x \<noteq> 0" and "\<bar>x\<bar> \<le> \<bar>y\<bar>"
  shows "expo x \<le> expo y"
proof -
  from assms have nz: "y \<noteq> 0" by auto
  from expo_upper [OF nz] assms(2) have "\<bar>x\<bar> < 2 powr (real_of_int (expo y) + 1)" by linarith
  from expo_le [OF assms(1) this expo_ge] show ?thesis .
qed

lemma ulp_pos: "0 < ulp x"
  by (simp add: ulp_def)

lemma ulp_minus: "ulp (- x) = ulp x"
  by (simp add: ulp_def expo_minus)

text \<open>The scaled value \<open>x / ulp x\<close> lies below \<open>2^53\<close>, and from \<open>2^52\<close> on for a normal number.\<close>

lemma scaled_upper: "x \<noteq> 0 \<Longrightarrow> \<bar>x\<bar> / ulp x < 2 ^ 53"
proof -
  assume nz: "x \<noteq> 0"
  have "real_of_int (expo x) + 1 = (real_of_int (expo x) - 52) + 53" by simp
  then have "2 powr (real_of_int (expo x) + 1) = ulp x * 2 powr 53"
    unfolding ulp_def by (simp only: powr_add)
  also have "(2::real) powr 53 = 2 ^ 53" by (simp add: powr_numeral)
  finally have "\<bar>x\<bar> < ulp x * 2 ^ 53" using expo_upper [OF nz] by simp
  with ulp_pos [of x] show ?thesis by (simp add: pos_divide_less_eq mult.commute)
qed

lemma scaled_lower: "x \<noteq> 0 \<Longrightarrow> - 1022 < expo x \<Longrightarrow> 2 ^ 52 \<le> \<bar>x\<bar> / ulp x"
proof -
  assume nz: "x \<noteq> 0" and big: "- 1022 < expo x"
  have "real_of_int (expo x) = (real_of_int (expo x) - 52) + 52" by simp
  then have "2 powr real_of_int (expo x) = 2 powr ((real_of_int (expo x) - 52) + 52)" by simp
  then have "2 powr real_of_int (expo x) = ulp x * 2 powr 52"
    unfolding ulp_def by (simp only: powr_add)
  also have "(2::real) powr 52 = 2 ^ 52" by (simp add: powr_numeral)
  finally have "ulp x * 2 ^ 52 \<le> \<bar>x\<bar>" using expo_lower [OF nz big] by simp
  with ulp_pos [of x] show ?thesis by (simp add: pos_le_divide_eq mult.commute)
qed


subsection \<open>Rounding to nearest\<close>

lemma round_real_0: "round_real 0 = 0"
  by (simp add: round_real_def)

lemma round_real_minus: "round_real (- x) = - round_real x"
  by (simp add: round_real_def ulp_minus rne_minus)

lemma round_real_nonneg: "0 \<le> x \<Longrightarrow> 0 \<le> round_real x"
proof -
  assume "0 \<le> x"
  with ulp_pos [of x] have "0 \<le> x / ulp x" by simp
  then have "0 \<le> rne (x / ulp x)" by (rule rne_nonneg)
  with ulp_pos [of x] show ?thesis by (simp add: round_real_def)
qed

lemma round_real_upper:
  assumes "0 < x"
  shows "round_real x \<le> 2 powr (real_of_int (expo x) + 1)"
proof -
  from assms have nz: "x \<noteq> 0" by simp
  from scaled_upper [OF nz] assms have "x / ulp x \<le> real_of_int (2 ^ 53)" by simp
  then have "rne (x / ulp x) \<le> 2 ^ 53" by (rule rne_le)
  then have "real_of_int (rne (x / ulp x)) \<le> real_of_int (2 ^ 53)" by (simp only: of_int_le_iff)
  then have "real_of_int (rne (x / ulp x)) \<le> 2 ^ 53" by simp
  with ulp_pos [of x] have "ulp x * real_of_int (rne (x / ulp x)) \<le> ulp x * 2 ^ 53"
    by (simp only: mult_le_cancel_left_pos)
  moreover have "real_of_int (expo x) + 1 = (real_of_int (expo x) - 52) + 53" by simp
  then have "2 powr (real_of_int (expo x) + 1) = ulp x * 2 powr 53"
    unfolding ulp_def by (simp only: powr_add)
  moreover have "(2::real) powr 53 = 2 ^ 53" by (simp add: powr_numeral)
  ultimately show ?thesis using nz by (simp add: round_real_def)
qed

lemma round_real_lower:
  assumes "0 < x" and "- 1022 < expo x"
  shows "2 powr real_of_int (expo x) \<le> round_real x"
proof -
  from assms have nz: "x \<noteq> 0" by simp
  from scaled_lower [OF nz assms(2)] assms(1) have "real_of_int (2 ^ 52) \<le> x / ulp x" by simp
  then have "2 ^ 52 \<le> rne (x / ulp x)" by (rule rne_ge)
  then have "real_of_int (2 ^ 52) \<le> real_of_int (rne (x / ulp x))" by (simp only: of_int_le_iff)
  then have "2 ^ 52 \<le> real_of_int (rne (x / ulp x))" by simp
  with ulp_pos [of x] have "ulp x * 2 ^ 52 \<le> ulp x * real_of_int (rne (x / ulp x))"
    by (simp only: mult_le_cancel_left_pos)
  moreover have "real_of_int (expo x) = (real_of_int (expo x) - 52) + 52" by simp
  then have "2 powr real_of_int (expo x) = 2 powr ((real_of_int (expo x) - 52) + 52)" by simp
  then have "2 powr real_of_int (expo x) = ulp x * 2 powr 52"
    unfolding ulp_def by (simp only: powr_add)
  moreover have "(2::real) powr 52 = 2 ^ 52" by (simp add: powr_numeral)
  ultimately show ?thesis using nz by (simp add: round_real_def)
qed

lemma round_real_mono_pos:
  assumes "0 < x" and "x \<le> y"
  shows "round_real x \<le> round_real y"
proof -
  from assms have ypos: "0 < y" by simp
  from assms have "expo x \<le> expo y" by (intro expo_mono) simp_all
  then consider "expo x = expo y" | "expo x < expo y" by linarith
  then show ?thesis
  proof cases
    case 1
    then have u: "ulp x = ulp y" by (simp add: ulp_def)
    from assms(2) ulp_pos [of y] have "x / ulp y \<le> y / ulp y" by (simp add: divide_right_mono)
    then have "rne (x / ulp y) \<le> rne (y / ulp y)" by (rule rne_mono)
    then have "real_of_int (rne (x / ulp y)) \<le> real_of_int (rne (y / ulp y))" by simp
    with ulp_pos [of y]
    have "ulp y * real_of_int (rne (x / ulp y)) \<le> ulp y * real_of_int (rne (y / ulp y))"
      by (simp only: mult_le_cancel_left_pos)
    with assms(1) ypos u show ?thesis by (simp add: round_real_def)
  next
    case 2
    with expo_ge [of x] have big: "- 1022 < expo y" by linarith
    from 2 have "real_of_int (expo x) + 1 \<le> real_of_int (expo y)" by linarith
    then have "2 powr (real_of_int (expo x) + 1) \<le> 2 powr real_of_int (expo y)"
      by (simp add: powr_le_cancel_iff)
    with round_real_upper [OF assms(1)] round_real_lower [OF ypos big] show ?thesis by linarith
  qed
qed

lemma round_real_mono: "x \<le> y \<Longrightarrow> round_real x \<le> round_real y"
proof -
  assume le: "x \<le> y"
  consider "0 < x" | "x \<le> 0" "0 \<le> y" | "y < 0" by linarith
  then show ?thesis
  proof cases
    case 1
    from round_real_mono_pos [OF 1 le] show ?thesis .
  next
    case 2
    from 2(1) have "0 \<le> round_real (- x)" by (intro round_real_nonneg) simp
    then have "round_real x \<le> 0" by (simp add: round_real_minus)
    with round_real_nonneg [OF 2(2)] show ?thesis by linarith
  next
    case 3
    with le have "0 < - y" and "- y \<le> - x" by simp_all
    from round_real_mono_pos [OF this] show ?thesis by (simp add: round_real_minus)
  qed
qed

text \<open>A number with a 53-bit mantissa is its own rounding.\<close>

lemma round_real_fixed:
  assumes "has_mantissa x"
  shows "round_real x = x"
proof (cases "x = 0")
  case True
  then show ?thesis by (simp add: round_real_def)
next
  case False
  from assms obtain m e :: int
    where x: "x = real_of_int m * 2 powr real_of_int e" and m: "\<bar>m\<bar> < 2 ^ 53" and e: "- 1074 \<le> e"
    unfolding has_mantissa_def by blast
  from m have "real_of_int \<bar>m\<bar> < real_of_int (2 ^ 53)" by (simp only: of_int_less_iff)
  then have "\<bar>real_of_int m\<bar> < 2 ^ 53" by simp
  moreover have "(2::real) powr 53 = 2 ^ 53" by (simp add: powr_numeral)
  ultimately have m53: "\<bar>real_of_int m\<bar> < 2 powr 53" by (simp only:)
  have a: "\<bar>x\<bar> = \<bar>real_of_int m\<bar> * 2 powr real_of_int e" by (simp add: x abs_mult)
  have b: "\<bar>real_of_int m\<bar> * 2 powr real_of_int e < 2 powr 53 * 2 powr real_of_int e"
  proof (rule mult_strict_right_mono)
    show "\<bar>real_of_int m\<bar> < 2 powr 53" by (fact m53)
    show "0 < (2::real) powr real_of_int e" by simp
  qed
  have c: "2 powr 53 * 2 powr real_of_int e = 2 powr (53 + real_of_int e)"
    by (simp only: powr_add)
  have d: "53 + real_of_int e = real_of_int (e + 52) + 1" by simp
  from b have "\<bar>x\<bar> < 2 powr (53 + real_of_int e)" unfolding a c .
  then have "\<bar>x\<bar> < 2 powr (real_of_int (e + 52) + 1)" unfolding d .
  moreover from e have "- 1022 \<le> e + 52" by simp
  ultimately have "expo x \<le> e + 52" by (intro expo_le [OF False])
  then obtain n :: nat where n: "e = expo x - 52 + int n"
    by (metis add.commute diff_le_eq zle_iff_zadd)
  have "2 powr real_of_int e = 2 powr (real_of_int (expo x) - 52 + real n)"
    by (simp add: n)
  also have "\<dots> = ulp x * 2 powr real n" unfolding ulp_def by (simp only: powr_add)
  also have "2 powr real n = 2 ^ n" by (simp add: powr_realpow)
  finally have "x = ulp x * real_of_int (m * 2 ^ n)" by (simp add: x)
  with ulp_pos [of x] have "x / ulp x = real_of_int (m * 2 ^ n)" by (simp add: field_simps)
  then have "rne (x / ulp x) = m * 2 ^ n" by (simp only: rne_of_int)
  with \<open>x = ulp x * real_of_int (m * 2 ^ n)\<close> False show ?thesis
    by (simp add: round_real_def)
qed


lemma has_mantissa_minus: "has_mantissa (- x) = has_mantissa x"
proof -
  have "has_mantissa y \<Longrightarrow> has_mantissa (- y)" for y
  proof -
    assume "has_mantissa y"
    then obtain m e :: int
      where "y = real_of_int m * 2 powr real_of_int e" and "\<bar>m\<bar> < 2 ^ 53" and "- 1074 \<le> e"
      unfolding has_mantissa_def by blast
    then have "- y = real_of_int (- m) * 2 powr real_of_int e \<and> \<bar>- m\<bar> < 2 ^ 53 \<and> - 1074 \<le> e"
      by simp
    then show "has_mantissa (- y)" unfolding has_mantissa_def by blast
  qed
  from this [of x] this [of "- x"] show ?thesis by auto
qed

lemma is_float_minus: "is_float (- x) = is_float x"
  by (simp add: is_float_def has_mantissa_minus)

lemma overflow_in_range: "- range_bound < r \<Longrightarrow> r < range_bound \<Longrightarrow> overflow r = Fin r"
  by (simp add: overflow_def)

lemma is_float_range: "is_float x \<Longrightarrow> - range_bound < x \<and> x < range_bound"
  by (simp add: is_float_def abs_less_iff)

lemma round64_float: "is_float x \<Longrightarrow> round64 x = Fin x"
proof -
  assume f: "is_float x"
  then have "round_real x = x" by (simp add: is_float_def round_real_fixed)
  moreover from is_float_range [OF f] have "- range_bound < x" and "x < range_bound" by simp_all
  ultimately show ?thesis by (simp add: round64_def overflow_in_range)
qed

text \<open>Rounding keeps a result between two binary64 numbers that enclose the exact value.\<close>

lemma round_real_between:
  assumes "is_float a" and "is_float b" and "a \<le> x" and "x \<le> b"
  shows "a \<le> round_real x" and "round_real x \<le> b"
proof -
  from assms(1) have "round_real a = a" by (simp add: is_float_def round_real_fixed)
  with round_real_mono [OF assms(3)] show "a \<le> round_real x" by simp
  from assms(2) have "round_real b = b" by (simp add: is_float_def round_real_fixed)
  with round_real_mono [OF assms(4)] show "round_real x \<le> b" by simp
qed

lemma round64_between:
  assumes "is_float a" and "is_float b" and "a \<le> x" and "x \<le> b"
  shows "round64 x = Fin (round_real x)"
proof -
  from is_float_range [OF assms(1)] have "- range_bound < a" by simp
  with round_real_between(1) [OF assms] have "- range_bound < round_real x" by linarith
  moreover from is_float_range [OF assms(2)] have "b < range_bound" by simp
  with round_real_between(2) [OF assms] have "round_real x < range_bound" by linarith
  ultimately show ?thesis by (simp add: round64_def overflow_in_range)
qed

lemma round64_not_NaN: "round64 x \<noteq> NaN"
  by (simp add: round64_def overflow_def)

text \<open>Binary64 numbers given by a mantissa and a power of two.\<close>

lemma has_mantissa_dyadic:
  assumes "\<bar>m\<bar> < 2 ^ 53" and "k \<le> 1074"
  shows "has_mantissa (real_of_int m / 2 ^ k)"
proof -
  have "(2::real) powr real_of_int (- int k) = 1 / 2 ^ k"
    by (simp add: powr_minus powr_realpow divide_inverse)
  then have "real_of_int m / 2 ^ k = real_of_int m * 2 powr real_of_int (- int k)" by simp
  moreover from assms(2) have "- 1074 \<le> - int k" by simp
  ultimately show ?thesis using assms(1) unfolding has_mantissa_def by blast
qed

lemma has_mantissa_scaled:
  assumes "\<bar>m\<bar> < 2 ^ 53"
  shows "has_mantissa (real_of_int m * 2 ^ k)"
proof -
  have "(2::real) powr real_of_int (int k) = 2 ^ k" by (simp add: powr_realpow)
  then have "real_of_int m * 2 ^ k = real_of_int m * 2 powr real_of_int (int k)" by simp
  moreover have "- 1074 \<le> int k" by simp
  ultimately show ?thesis using assms unfolding has_mantissa_def by blast
qed

lemma power_53_range: "(2::real) ^ 53 * 2 ^ 971 = range_bound"
  by (simp only: power_add [symmetric] range_bound_def) simp

lemma is_float_scaled:
  assumes "\<bar>m\<bar> < 2 ^ 53" and "k \<le> 971"
  shows "is_float (real_of_int m * 2 ^ k)"
proof -
  from assms(1) have "real_of_int \<bar>m\<bar> < real_of_int (2 ^ 53)" by (simp only: of_int_less_iff)
  then have m: "\<bar>real_of_int m\<bar> < 2 ^ 53" by simp
  from assms(2) have "(2::real) ^ k \<le> 2 ^ 971" by (intro power_increasing) simp_all
  then have "\<bar>real_of_int m\<bar> * 2 ^ k < 2 ^ 53 * 2 ^ 971"
  proof (rule mult_less_le_imp_less [OF m])
    show "0 \<le> \<bar>real_of_int m\<bar>" by simp
    show "0 < (2::real) ^ k" by simp
  qed
  moreover have "\<bar>real_of_int m * 2 ^ k\<bar> = \<bar>real_of_int m\<bar> * 2 ^ k" by (simp add: abs_mult)
  ultimately have "\<bar>real_of_int m * 2 ^ k\<bar> < range_bound"
    by (simp only: power_53_range)
  with has_mantissa_scaled [OF assms(1)] show ?thesis by (simp add: is_float_def)
qed

lemma is_float_dyadic:
  assumes "\<bar>m\<bar> < 2 ^ 53" and "k \<le> 1074"
  shows "is_float (real_of_int m / 2 ^ k)"
proof -
  from is_float_scaled [OF assms(1), of 0] have "\<bar>real_of_int m\<bar> < range_bound"
    by (simp add: is_float_def)
  moreover have "\<bar>real_of_int m / 2 ^ k\<bar> \<le> \<bar>real_of_int m\<bar>"
    by (simp add: abs_divide divide_le_eq mult_le_cancel_left1)
  ultimately have "\<bar>real_of_int m / 2 ^ k\<bar> < range_bound" by linarith
  with has_mantissa_dyadic [OF assms] show ?thesis by (simp add: is_float_def)
qed

lemma is_float_int: "\<bar>m\<bar> < 2 ^ 53 \<Longrightarrow> is_float (real_of_int m)"
  using is_float_scaled [of m 0] by simp

lemma is_float_0: "is_float 0"
  using is_float_int [of 0] by simp

lemma is_float_1: "is_float 1"
  using is_float_int [of 1] by simp

lemma round64_int: "\<bar>m\<bar> < 2 ^ 53 \<Longrightarrow> round64 (real_of_int m) = Fin (real_of_int m)"
  by (rule round64_float) (rule is_float_int)

lemma round64_dyadic:
  "\<bar>m\<bar> < 2 ^ 53 \<Longrightarrow> k \<le> 1074 \<Longrightarrow> round64 (real_of_int m / 2 ^ k) = Fin (real_of_int m / 2 ^ k)"
  by (rule round64_float) (rule is_float_dyadic)

text \<open>
  The rounding of a number whose binade is known: the nearest multiple of the spacing, when
  one is nearer than half a spacing.
\<close>

lemma two_powr_nat: "(2::real) powr real_of_int (int n) = 2 ^ n"
  by (simp add: powr_realpow)

lemma round_real_near:
  assumes "2 ^ (n + 52) \<le> \<bar>x\<bar>" and "\<bar>x\<bar> < 2 ^ (n + 53)"
    and "\<bar>x / 2 ^ n - real_of_int k\<bar> < 1 / 2"
  shows "round_real x = 2 ^ n * real_of_int k"
proof -
  have "0 < (2::real) ^ (n + 52)" by simp
  with assms(1) have "0 < \<bar>x\<bar>" by linarith
  then have nz: "x \<noteq> 0" by simp
  from assms(1) have lo: "2 powr real_of_int (int (n + 52)) \<le> \<bar>x\<bar>"
    by (simp only: two_powr_nat)
  have "real_of_int (int (n + 52)) + 1 = real_of_int (int (n + 53))" by simp
  with assms(2) have hi: "\<bar>x\<bar> < 2 powr (real_of_int (int (n + 52)) + 1)"
    by (simp only: two_powr_nat)
  have "expo x = int (n + 52)" by (rule expo_eq [OF nz lo hi]) simp
  then have "ulp x = 2 powr real n" by (simp add: ulp_def)
  then have u: "ulp x = 2 ^ n" by (simp add: powr_realpow)
  from assms(3) have "rne (x / 2 ^ n) = k" by (rule rne_near)
  with u nz show ?thesis by (simp add: round_real_def)
qed

text \<open>Rounding loses at most half of a positive number that is not below the least one.\<close>

lemma min_float_pos: "0 < min_float"
  by (simp add: min_float_def)

lemma min_float_small: "min_float \<le> 1 / 2 ^ 55"
proof -
  have "(2::real) powr (- 1074) \<le> 2 powr (- 55)" by (rule powr_mono) simp_all
  also have "(2::real) powr (- 55) = 1 / 2 ^ 55" by (simp add: powr_minus_divide)
  finally show ?thesis by (simp only: min_float_def)
qed

lemma round_real_ge_half:
  assumes "min_float \<le> x"
  shows "x / 2 \<le> round_real x"
proof -
  from assms min_float_pos have pos: "0 < x" by linarith
  then have nz: "x \<noteq> 0" by simp
  have "ulp x \<le> x"
  proof (cases "- 1022 < expo x")
    case True
    have "ulp x \<le> 2 powr real_of_int (expo x)" unfolding ulp_def by (rule powr_mono) simp_all
    with expo_lower [OF nz True] pos show ?thesis by simp
  next
    case False
    with expo_ge [of x] have "expo x = - 1022" by linarith
    then have "real_of_int (expo x) - 52 = - 1074" by simp
    then have "ulp x = min_float" by (simp only: ulp_def min_float_def)
    with assms show ?thesis by simp
  qed
  define q where "q = x / ulp x"
  from \<open>ulp x \<le> x\<close> ulp_pos [of x] have one: "1 \<le> q" by (simp add: q_def pos_le_divide_eq)
  have fl: "q < real_of_int \<lfloor>q\<rfloor> + 1" by linarith
  from one have "1 \<le> \<lfloor>q\<rfloor>" by simp
  then have "1 \<le> real_of_int \<lfloor>q\<rfloor>" by linarith
  with fl have "q / 2 \<le> real_of_int \<lfloor>q\<rfloor>" by linarith
  also have "\<dots> \<le> real_of_int (rne q)" using rne_ge_floor [of q] by linarith
  finally have "ulp x * (q / 2) \<le> ulp x * real_of_int (rne q)"
    using ulp_pos [of x] by (simp only: mult_le_cancel_left_pos)
  then have "ulp x * (x / ulp x / 2) \<le> ulp x * real_of_int (rne (x / ulp x))"
    by (simp only: q_def)
  moreover from ulp_pos [of x] have "ulp x * (x / ulp x / 2) = x / 2" by simp
  ultimately show ?thesis using nz by (simp add: round_real_def)
qed
subsection \<open>Numbers that round to themselves\<close>

lemma is_float_power2: "k \<le> 1023 \<Longrightarrow> is_float (2 ^ k)"
proof -
  assume k: "k \<le> 1023"
  have "has_mantissa (real_of_int 1 * 2 ^ k)" by (rule has_mantissa_scaled) simp
  then have m: "has_mantissa (2 ^ k)" by simp
  from k have "(2::real) ^ k < 2 ^ 1024" by (intro power_strict_increasing) simp_all
  moreover have "\<bar>(2::real) ^ k\<bar> = 2 ^ k" by simp
  ultimately have "\<bar>(2::real) ^ k\<bar> < range_bound" by (simp only: range_bound_def)
  with m show ?thesis by (simp only: is_float_def)
qed


lemma round64_0: "round64 0 = Fin 0"
  by (rule round64_float) (rule is_float_0)

lemma round64_1: "round64 1 = Fin 1"
  by (rule round64_float) (rule is_float_1)

lemma round64_numeral: "(numeral n :: int) < 2 ^ 53 \<Longrightarrow> round64 (numeral n) = Fin (numeral n)"
  using round64_int [of "numeral n"] by simp

lemma round64_neg_numeral:
  "(numeral n :: int) < 2 ^ 53 \<Longrightarrow> round64 (- numeral n) = Fin (- numeral n)"
  using round64_int [of "- numeral n"] by simp

lemma round64_half: "round64 (1 / 2) = Fin (1 / 2)"
  using round64_dyadic [of 1 1] by simp

lemma round64_neg_half: "round64 (- (1 / 2)) = Fin (- (1 / 2))"
  using round64_dyadic [of "- 1" 1] by simp

lemma round64_quarter: "round64 (1 / 4) = Fin (1 / 4)"
  using round64_dyadic [of 1 2] by simp

lemma round64_neg_quarter: "round64 (- (1 / 4)) = Fin (- (1 / 4))"
  using round64_dyadic [of "- 1" 2] by simp

lemma round64_three_halves: "round64 (3 / 2) = Fin (3 / 2)"
  using round64_dyadic [of 3 1] by simp

lemmas small_roundings =
  round64_0 round64_1 round64_numeral round64_neg_numeral round64_half round64_neg_half
  round64_quarter round64_neg_quarter round64_three_halves

lemma round_real_numeral: "(numeral n :: int) < 2 ^ 53 \<Longrightarrow> round_real (numeral n) = numeral n"
  using round_real_fixed [of "numeral n"] is_float_int [of "numeral n"]
  by (simp add: is_float_def)

lemma round_real_1: "round_real 1 = 1"
  using round_real_fixed [of 1] is_float_1 by (simp add: is_float_def)

lemma float_price_numeral: "(numeral n :: int) < 2 ^ 53 \<Longrightarrow> float_price (numeral n)"
  using is_float_int [of "numeral n"] by (simp add: float_price_def)

lemma float_price_1: "float_price 1"
  using is_float_1 by (simp add: float_price_def)

lemma is_float_max_float: "is_float max_float"
  using is_float_scaled [of "2 ^ 53 - 1" 971] by (simp add: max_float_def)

lemma max_float_large: "1000000000000000000 \<le> max_float"
proof -
  have "(1000000000000000000::real) \<le> (2 ^ 53 - 1) * 2 ^ 7" by simp
  also have "\<dots> \<le> (2 ^ 53 - 1) * 2 ^ 971"
    by (intro mult_left_mono power_increasing) simp_all
  finally show ?thesis by (simp only: max_float_def)
qed


lemma range_bound_large: "1000000000000000000 < range_bound"
proof -
  have "(1000000000000000000::real) < 2 ^ 60" by simp
  also have "\<dots> \<le> 2 ^ 1024" by (rule power_increasing) simp_all
  finally show ?thesis by (simp only: range_bound_def)
qed

lemma small_valid_price: "0 < r \<Longrightarrow> r \<le> 1000000 \<Longrightarrow> valid_price r"
  using range_bound_large by (simp add: valid_price_def)

lemma round64_neg_1: "round64 (- 1) = Fin (- 1)"
  using round64_int [of "- 1"] by simp

lemma round_real_neg_numeral:
  "(numeral n :: int) < 2 ^ 53 \<Longrightarrow> round_real (- numeral n) = - numeral n"
  using round_real_numeral [of n] by (simp add: round_real_minus)

lemma round_real_neg_quarter: "round_real (- (1 / 4)) = - (1 / 4)"
  using round_real_fixed [of "- (1 / 4)"] is_float_dyadic [of "- 1" 2]
  by (simp add: is_float_def)


text \<open>A power of two beyond the range rounds to itself and overflows.\<close>

lemma round64_power2_overflow: "1024 \<le> k \<Longrightarrow> round64 (2 ^ k) = PInf"
proof -
  assume k: "1024 \<le> k"
  have "has_mantissa (real_of_int 1 * 2 ^ k)" by (rule has_mantissa_scaled) simp
  then have "round_real (2 ^ k) = 2 ^ k" using round_real_fixed [of "2 ^ k"] by simp
  moreover from k have "(2::real) ^ 1024 \<le> 2 ^ k" by (intro power_increasing) simp_all
  then have "range_bound \<le> 2 ^ k" by (simp only: range_bound_def)
  ultimately show ?thesis by (simp add: round64_def overflow_def)
qed

subsection \<open>The gap between two binary64 numbers\<close>

lemma mantissa_grid:
  assumes "x = real_of_int m * 2 powr real_of_int e" and "g \<le> e"
  shows "\<exists>N::int. x = real_of_int N * 2 powr real_of_int g \<and> (e = g \<longrightarrow> N = m)"
proof -
  from assms(2) obtain n :: nat where n: "e = g + int n" by (metis zle_iff_zadd)
  have "2 powr real_of_int e = 2 powr (real_of_int g + real n)" by (simp add: n)
  also have "\<dots> = 2 powr real_of_int g * 2 powr real n" by (rule powr_add)
  also have "2 powr real n = (2::real) ^ n" by (simp add: powr_realpow)
  finally have "x = real_of_int (m * 2 ^ n) * 2 powr real_of_int g" by (simp add: assms(1))
  moreover have "e = g \<longrightarrow> m * 2 ^ n = m" using n by simp
  ultimately show ?thesis by blast
qed

lemma float_gap:
  assumes c: "has_mantissa c" and p: "has_mantissa p" and pos: "0 < c" and less: "c < p"
  shows "min_float \<le> p - c" and "p \<le> 2 ^ 54 * (p - c)"
proof -
  from c obtain mc ec :: int
    where cr: "c = real_of_int mc * 2 powr real_of_int ec" and mc: "\<bar>mc\<bar> < 2 ^ 53"
      and ec: "- 1074 \<le> ec"
    unfolding has_mantissa_def by blast
  from p obtain mp ep :: int
    where pr: "p = real_of_int mp * 2 powr real_of_int ep" and mp: "\<bar>mp\<bar> < 2 ^ 53"
      and ep: "- 1074 \<le> ep"
    unfolding has_mantissa_def by blast
  define g where "g = min ec ep"
  define u :: real where "u = 2 powr real_of_int g"
  define K :: real where "K = 2 ^ 53"
  define d where "d = p - c"
  have u: "0 < u" by (simp add: u_def)
  have K: "1 \<le> K" by (simp add: K_def)
  from ec ep have "- 1074 \<le> g" by (simp add: g_def)
  then have "(- 1074 :: real) \<le> real_of_int g" by linarith
  then have "(2::real) powr (- 1074) \<le> 2 powr real_of_int g" by (rule powr_mono) simp
  then have least: "min_float \<le> u" by (simp only: u_def min_float_def)
  have "g \<le> ec" by (simp add: g_def)
  from mantissa_grid [OF cr this] obtain Nc :: int
    where Nc: "c = real_of_int Nc * u" and Nc': "ec = g \<longrightarrow> Nc = mc"
    unfolding u_def by blast
  have "g \<le> ep" by (simp add: g_def)
  from mantissa_grid [OF pr this] obtain Np :: int
    where Np: "p = real_of_int Np * u" and Np': "ep = g \<longrightarrow> Np = mp"
    unfolding u_def by blast
  from less have "real_of_int Nc * u < real_of_int Np * u" by (simp only: Nc Np)
  with u have "real_of_int Nc < real_of_int Np" by (simp only: mult_less_cancel_right_pos)
  then have "Nc + 1 \<le> Np" by linarith
  then have "real_of_int Nc + 1 \<le> real_of_int Np" by linarith
  with u have "(real_of_int Nc + 1) * u \<le> real_of_int Np * u"
    by (simp only: mult_le_cancel_right_pos)
  then have gap: "u \<le> d" by (simp add: Nc Np d_def algebra_simps)
  with least show "min_float \<le> p - c" unfolding d_def by linarith
  from gap u have d0: "0 \<le> d" by linarith
  from gap K have Kd: "K * u \<le> K * d" by (intro mult_left_mono) simp_all
  from d0 K have dK: "d \<le> K * d" by (simp add: mult_le_cancel_right1)
  have small: "real_of_int N * u < K * u" if "\<bar>N\<bar> < 2 ^ 53" for N :: int
  proof -
    from that have "N < 2 ^ 53" by linarith
    then have "real_of_int N < real_of_int (2 ^ 53)" by (simp only: of_int_less_iff)
    then have "real_of_int N < K" by (simp add: K_def)
    with u show ?thesis by (simp only: mult_less_cancel_right_pos)
  qed
  have "g = ep \<or> g = ec" by (auto simp: g_def min_def)
  then have "p \<le> 2 * (K * d)"
  proof
    assume "g = ep"
    with Np' have "Np = mp" by simp
    with small [OF mp] have "p < K * u" by (simp only: Np)
    with Kd d0 K dK show ?thesis by linarith
  next
    assume "g = ec"
    with Nc' have "Nc = mc" by simp
    with small [OF mc] have "c < K * u" by (simp only: Nc)
    moreover have "p = c + d" by (simp add: d_def)
    ultimately show ?thesis using Kd dK by linarith
  qed
  moreover have "2 * (K * d) = 2 ^ 54 * (p - c)" by (simp add: K_def d_def)
  ultimately show "p \<le> 2 ^ 54 * (p - c)" by (simp only:)
qed

subsection \<open>One drawdown\<close>

text \<open>
  The quotient of lines 41 (scorer) and 72 (risk profile) for a price \<open>p\<close> under its running
  maximum \<open>m\<close>: both roundings stay between 0 and 1, and the result is 0 only when the
  price is at its maximum, because two distinct binary64 numbers are never so close that
  the quotient underflows.
\<close>

lemma drawdown_core:
  assumes p: "float_price p" and m: "float_price m" and le: "p \<le> m"
  defines "r \<equiv> round_real (m - p)"
  defines "d \<equiv> round_real (r / m)"
  shows "round64 (m - p) = Fin r" and "round64 (r / m) = Fin d"
    and "0 \<le> d" and "d \<le> 1" and "d = 0 \<longleftrightarrow> p = m"
proof -
  from p m have p0: "0 < p" and m0: "0 < m" and fp: "is_float p" and fm: "is_float m"
    by (simp_all add: float_price_def)
  from p0 le have lo: "0 \<le> m - p" and hi: "m - p \<le> m" by simp_all
  from round64_between [OF is_float_0 fm lo hi] show r64: "round64 (m - p) = Fin r"
    by (simp only: r_def)
  from round_real_between [OF is_float_0 fm lo hi] have r0: "0 \<le> r" and rm: "r \<le> m"
    by (simp_all only: r_def)
  from r0 rm m0 have qlo: "0 \<le> r / m" and qhi: "r / m \<le> 1" by simp_all
  from round64_between [OF is_float_0 is_float_1 qlo qhi] show "round64 (r / m) = Fin d"
    by (simp only: d_def)
  from round_real_between [OF is_float_0 is_float_1 qlo qhi] show "0 \<le> d" and "d \<le> 1"
    by (simp_all only: d_def)
  show "d = 0 \<longleftrightarrow> p = m"
  proof
    assume "p = m"
    then show "d = 0" by (simp add: d_def r_def round_real_0)
  next
    assume d0: "d = 0"
    show "p = m"
    proof (rule ccontr)
      assume "p \<noteq> m"
      with le have less: "p < m" by simp
      from fp fm have "has_mantissa p" and "has_mantissa m" by (simp_all add: is_float_def)
      from float_gap [OF this p0 less]
      have g1: "min_float \<le> m - p" and g2: "m \<le> 2 ^ 54 * (m - p)" .
      from round_real_ge_half [OF g1] have half: "(m - p) / 2 \<le> r" by (simp only: r_def)
      from g2 have "m \<le> 18014398509481984 * (m - p)" by simp
      with half have "m \<le> 36028797018963968 * r" by linarith
      with m0 have q: "1 / 2 ^ 55 \<le> r / m" by (simp add: field_simps)
      with min_float_small have "min_float \<le> r / m" by linarith
      from round_real_ge_half [OF this] have below: "r / m / 2 \<le> d" by (simp only: d_def)
      have "(0::real) < 1 / 2 ^ 55" by simp
      then have "0 < r / m" using q by (rule less_le_trans)
      then have "0 < r / m / 2" by simp
      then have "0 < d" using below by (rule less_le_trans)
      with d0 show False by simp
    qed
  qed
qed

lemma drawdown_entry:
  assumes "float_price p" and "float_price m" and "p \<le> m"
  shows "\<exists>d. fl_div (fl_sub (Fin m) (Fin p)) (Fin m) = Fin d \<and>
           d = round_real (round_real (m - p) / m) \<and> 0 \<le> d \<and> d \<le> 1 \<and> (d = 0 \<longleftrightarrow> p = m)"
proof -
  from assms(2) have "m \<noteq> 0" by (simp add: float_price_def)
  with drawdown_core(1,2) [OF assms]
  have "fl_div (fl_sub (Fin m) (Fin p)) (Fin m) = Fin (round_real (round_real (m - p) / m))"
    by (simp add: fl_sub_def)
  with drawdown_core(3,4,5) [OF assms] show ?thesis by blast
qed

lemma drawdown_entry_signed:
  assumes "float_price c" and "float_price p" and "c \<le> p"
  shows "\<exists>d. fl_div (fl_sub (Fin c) (Fin p)) (Fin p) = Fin d \<and>
           d = round_real (round_real (c - p) / p) \<and> - 1 \<le> d \<and> d \<le> 0 \<and> (d = 0 \<longleftrightarrow> c = p)"
proof -
  let ?r = "round_real (p - c)"
  let ?d = "round_real (?r / p)"
  from assms(2) have nz: "p \<noteq> 0" by (simp add: float_price_def)
  have "round_real (c - p) = - ?r" using round_real_minus [of "p - c"] by simp
  then have r: "round_real (c - p) = - ?r" .
  have "round_real (- ?r / p) = - ?d" using round_real_minus [of "?r / p"] by simp
  with r have d: "round_real (round_real (c - p) / p) = - ?d" by simp
  from drawdown_core(1) [OF assms] have "round64 (p - c) = Fin ?r" .
  then have "- range_bound < ?r \<and> ?r < range_bound"
    by (simp add: round64_def overflow_def split: if_splits)
  then have "round64 (c - p) = Fin (- ?r)"
    by (simp add: round64_def r overflow_in_range)
  moreover from drawdown_core(2) [OF assms] have "round64 (?r / p) = Fin ?d" .
  then have "- range_bound < ?d \<and> ?d < range_bound"
    by (simp add: round64_def overflow_def split: if_splits)
  then have "round64 (- ?r / p) = Fin (- ?d)"
    using \<open>round_real (- ?r / p) = - ?d\<close> by (simp add: round64_def overflow_in_range)
  ultimately have "fl_div (fl_sub (Fin c) (Fin p)) (Fin p) = Fin (- ?d)"
    using nz by (simp add: fl_sub_def)
  with drawdown_core(3,4,5) [OF assms] d show ?thesis by auto
qed

lemma fl_div_positive_not_NaN: "a \<noteq> NaN \<Longrightarrow> 0 < b \<Longrightarrow> fl_div a (Fin b) \<noteq> NaN"
  by (cases a) (simp_all add: round64_not_NaN)

lemma drawdown_entry_not_NaN:
  "0 < p \<Longrightarrow> fl_div (fl_sub (Fin c) (Fin p)) (Fin p) \<noteq> NaN"
  by (rule fl_div_positive_not_NaN) (simp_all add: fl_sub_def round64_not_NaN)

section \<open>The running maximum and the drawdowns\<close>

lemma fl_maximum_Fin: "fl_maximum (Fin a) (Fin b) = Fin (max a b)"
  by (simp add: max_def)

lemma accumulate_from_Fin:
  "accumulate_from (Fin m) (map Fin rs) = map Fin (cummax_from m rs)"
  by (induction rs arbitrary: m) (simp_all add: fl_maximum_Fin)

lemma maximum_accumulate_Fin: "maximum_accumulate (map Fin rs) = map Fin (cummax rs)"
  by (cases rs) (simp_all add: accumulate_from_Fin)

lemma length_cummax_from: "length (cummax_from m rs) = length rs"
  by (induction rs arbitrary: m) simp_all

lemma length_cummax: "length (cummax rs) = length rs"
  by (cases rs) (simp_all add: length_cummax_from)

lemma cummax_from_nth:
  "t < length rs \<Longrightarrow> cummax_from m rs ! t = Max (insert m (set (take (Suc t) rs)))"
proof (induction rs arbitrary: m t)
  case Nil
  then show ?case by simp
next
  case (Cons r rs)
  show ?case
  proof (cases t)
    case 0
    then show ?thesis by (simp add: max.commute)
  next
    case (Suc k)
    with Cons.prems have k: "k < length rs" by simp
    from k have ne: "set (take (Suc k) rs) \<noteq> {}" by (cases rs) auto
    then have "Max (insert (max m r) (set (take (Suc k) rs))) =
          Max (insert m (insert r (set (take (Suc k) rs))))"
      by (simp add: max.assoc)
    with Cons.IH [OF k, of "max m r"] Suc show ?thesis by simp
  qed
qed

lemma cummax_nth:
  "t < length rs \<Longrightarrow> cummax rs ! t = Max (set (take (Suc t) rs))"
proof (cases rs)
  case Nil
  assume "t < length rs"
  with Nil show ?thesis by simp
next
  case (Cons r rs')
  assume t: "t < length rs"
  show ?thesis
  proof (cases t)
    case 0
    with Cons show ?thesis by simp
  next
    case (Suc k)
    with t Cons have "k < length rs'" by simp
    from cummax_from_nth [OF this, of r] Suc Cons show ?thesis by simp
  qed
qed

lemma cummax_ge_self: "t < length rs \<Longrightarrow> rs ! t \<le> cummax rs ! t"
proof -
  assume t: "t < length rs"
  then have "rs ! t \<in> set (take (Suc t) rs)"
    by (metis in_set_conv_nth length_take lessI min_less_iff_conj nth_take)
  then show ?thesis by (simp add: cummax_nth [OF t])
qed

lemma cummax_attained:
  assumes "i < length cl"
  shows "\<exists>j\<le>i. cl ! j = cummax cl ! i"
proof -
  from assms have "set (take (Suc i) cl) \<noteq> {}" by (cases cl) auto
  then have "Max (set (take (Suc i) cl)) \<in> set (take (Suc i) cl)" by (intro Max_in) simp_all
  then obtain j where "j < length (take (Suc i) cl)" and "take (Suc i) cl ! j = Max (set (take (Suc i) cl))"
    by (auto simp: in_set_conv_nth)
  with assms show ?thesis by (intro exI [of _ j]) (simp add: cummax_nth)
qed

lemma cummax_in_set: "t < length rs \<Longrightarrow> cummax rs ! t \<in> set rs"
proof -
  assume t: "t < length rs"
  from cummax_attained [OF t] obtain j where "j \<le> t" and "rs ! j = cummax rs ! t" by blast
  with t show ?thesis by (metis le_less_trans nth_mem)
qed

lemma cummax_from_fixed:
  "cummax_from m rs = rs \<longleftrightarrow> sorted rs \<and> (\<forall>r\<in>set rs. m \<le> r)"
proof (induction rs arbitrary: m)
  case Nil
  then show ?case by simp
next
  case (Cons r rs)
  show ?case
  proof (cases "m \<le> r")
    case True
    then have "max m r = r" by simp
    with Cons.IH [of r] True show ?thesis by (auto intro: order_trans)
  next
    case False
    then show ?thesis by auto
  qed
qed

lemma cummax_fixed: "cummax rs = rs \<longleftrightarrow> sorted rs"
  by (cases rs) (auto simp: cummax_from_fixed)


lemma cummax_float_price:
  assumes "\<forall>r\<in>set rs. float_price r" and "t < length rs"
  shows "float_price (cummax rs ! t)"
  using cummax_in_set [OF assms(2)] assms(1) by simp

text \<open>
  The drawdown of the scorer at position \<open>t\<close>, as binary64 arithmetic gives it: the
  difference is rounded, then the quotient.
\<close>

lemma drawdowns_nth:
  assumes t: "t < length rs" and valid: "\<forall>r\<in>set rs. float_price r"
  shows "drawdowns (map Fin rs) ! t =
         Fin (round_real (round_real (cummax rs ! t - rs ! t) / cummax rs ! t))"
proof -
  from t valid have p: "float_price (rs ! t)" by simp
  from drawdown_entry [OF p cummax_float_price [OF valid t] cummax_ge_self [OF t]]
  have "fl_div (fl_sub (Fin (cummax rs ! t)) (Fin (rs ! t))) (Fin (cummax rs ! t)) =
      Fin (round_real (round_real (cummax rs ! t - rs ! t) / cummax rs ! t))"
    by blast
  with t show ?thesis
    by (simp add: drawdowns_def maximum_accumulate_Fin length_cummax)
qed

lemma length_accumulate_from: "length (accumulate_from m ps) = length ps"
  by (induction ps arbitrary: m) simp_all

lemma length_drawdowns: "length (drawdowns ps) = length ps"
  by (cases ps) (simp_all add: drawdowns_def length_accumulate_from)

lemma fold_maximum_Fin:
  "fold (\<lambda>y m. fl_maximum m y) (map Fin ds) (Fin d) = Fin (Max (set (d # ds)))"
proof (induction ds arbitrary: d)
  case Nil
  then show ?case by simp
next
  case (Cons e ds)
  have "Max (set (max d e # ds)) = Max (set (d # e # ds))"
    by (cases "set ds = {}") (simp_all add: max.assoc)
  with Cons.IH [of "max d e"] show ?case
    by (simp add: fl_maximum_Fin del: fl_maximum.simps)
qed

lemma np_max_Fin: "ds \<noteq> [] \<Longrightarrow> np_max (map Fin ds) = Inr (Fin (Max (set ds)))"
  using fold_maximum_Fin by (cases ds) simp_all

lemma positive_drawdowns:
  assumes valid: "\<forall>r\<in>set rs. float_price r"
  shows "drawdowns (map Fin rs) =
         map Fin (map (\<lambda>t. round_real (round_real (cummax rs ! t - rs ! t) / cummax rs ! t))
                    [0..<length rs])"
proof (rule nth_equalityI)
  show "length (drawdowns (map Fin rs)) =
        length (map Fin (map (\<lambda>t. round_real (round_real (cummax rs ! t - rs ! t) / cummax rs ! t))
                           [0..<length rs]))"
    by (simp add: length_drawdowns)
next
  fix t assume "t < length (drawdowns (map Fin rs))"
  then have t: "t < length rs" by (simp add: length_drawdowns)
  from drawdowns_nth [OF t valid] t
  show "drawdowns (map Fin rs) ! t =
        map Fin (map (\<lambda>t. round_real (round_real (cummax rs ! t - rs ! t) / cummax rs ! t))
                   [0..<length rs]) ! t"
    by simp
qed

lemma max_dd_value:
  assumes ne: "rs \<noteq> []" and valid: "\<forall>r\<in>set rs. float_price r"
  shows "max_dd (map Fin rs) =
         Inr (Fin (Max ((\<lambda>t. round_real (round_real (cummax rs ! t - rs ! t) / cummax rs ! t)) `
                          {..<length rs})))"
proof -
  from ne
  have "map (\<lambda>t. round_real (round_real (cummax rs ! t - rs ! t) / cummax rs ! t)) [0..<length rs] \<noteq> []"
    by simp
  from np_max_Fin [OF this] show ?thesis
    by (simp add: max_dd_def positive_drawdowns [OF valid] atLeast0LessThan)
qed

lemma max_dd_bounds:
  assumes ne: "rs \<noteq> []" and valid: "\<forall>r\<in>set rs. float_price r"
  defines "m \<equiv> Max ((\<lambda>t. round_real (round_real (cummax rs ! t - rs ! t) / cummax rs ! t)) `
                       {..<length rs})"
  shows "0 \<le> m" and "m \<le> 1" and "m = 0 \<longleftrightarrow> sorted rs"
proof -
  let ?d = "\<lambda>t. round_real (round_real (cummax rs ! t - rs ! t) / cummax rs ! t)"
  let ?D = "?d ` {..<length rs}"
  have fin: "finite ?D" by simp
  from ne have nonempty: "?D \<noteq> {}" by (simp add: lessThan_empty_iff)
  have each: "0 \<le> ?d t \<and> ?d t \<le> 1 \<and> (?d t = 0 \<longleftrightarrow> rs ! t = cummax rs ! t)"
    if t: "t < length rs" for t
  proof -
    from t valid have p: "float_price (rs ! t)" by simp
    from drawdown_core(3,4,5) [OF p cummax_float_price [OF valid t] cummax_ge_self [OF t]]
    show ?thesis by blast
  qed
  from Max_in [OF fin nonempty] obtain t where t: "t < length rs" and mt: "m = ?d t"
    unfolding m_def by auto
  from each [OF t] mt show "0 \<le> m" and "m \<le> 1" by simp_all
  show "m = 0 \<longleftrightarrow> sorted rs"
  proof
    assume m0: "m = 0"
    have "cummax rs ! t = rs ! t" if t: "t < length rs" for t
    proof -
      from t have "?d t \<in> ?D" by simp
      from Max_ge [OF fin this] m0 have "?d t \<le> 0" by (simp add: m_def)
      moreover from each [OF t] have "0 \<le> ?d t" ..
      ultimately have "?d t = 0" by (rule order_antisym)
      with each [OF t] show ?thesis by simp
    qed
    then have "cummax rs = rs" by (intro nth_equalityI) (simp_all add: length_cummax)
    then show "sorted rs" by (simp add: cummax_fixed)
  next
    assume "sorted rs"
    then have fixed: "cummax rs = rs" by (simp add: cummax_fixed)
    with mt show "m = 0" by (simp add: round_real_0)
  qed
qed

lemma finite_values_log:
  "\<forall>r\<in>set rs. 0 < r \<Longrightarrow>
   finite_values (map np_log (map Fin rs)) = Some (map (\<lambda>r. round_real (ln r)) rs)"
  by (induction rs) simp_all

lemma finite_values_rejects:
  "\<exists>p\<in>set ps. \<not> positive_finite p \<Longrightarrow> finite_values (map np_log ps) = None"
proof (induction ps)
  case Nil
  then show ?case by simp
next
  case (Cons p ps)
  show ?case
  proof (cases "positive_finite p")
    case True
    then obtain x where "p = Fin x" and "0 < x" by (cases p) simp_all
    moreover from True Cons.prems have "\<exists>q\<in>set ps. \<not> positive_finite q" by auto
    ultimately show ?thesis using Cons.IH by simp
  next
    case False
    then show ?thesis by (cases p) simp_all
  qed
qed

lemma max_dd_returns: "ps \<noteq> [] \<Longrightarrow> \<exists>d. max_dd ps = Inr d"
proof -
  assume "ps \<noteq> []"
  then have "drawdowns ps \<noteq> []" using length_drawdowns [of ps] by auto
  then show ?thesis by (cases "drawdowns ps") (simp_all add: max_dd_def)
qed

text \<open>The score of a series of binary64 prices, strictly positive: no exception, and this sum.\<close>

lemma score_valid:
  assumes len: "2 \<le> length rs" and valid: "\<forall>r\<in>set rs. float_price r"
  shows "compute_stock_score trend (map Fin rs) w_ret w_dd w_stn af =
         Inr (fl_add
               (fl_add
                 (fl_mul w_ret (ann_return (map Fin rs) af))
                 (fl_mul w_dd
                    (Fin (Max ((\<lambda>t. round_real (round_real (cummax rs ! t - rs ! t) / cummax rs ! t)) `
                                 {..<length rs})))))
               (fl_mul w_stn (slope_to_noise trend (map (\<lambda>r. round_real (ln r)) rs))))"
proof -
  from len have ne: "rs \<noteq> []" by auto
  from valid have pos: "\<forall>r\<in>set rs. 0 < r" by (simp add: float_price_def)
  from len finite_values_log [OF pos] show ?thesis
    by (simp add: compute_stock_score_def max_dd_value [OF ne valid])
qed

section \<open>Concrete series\<close>






lemma c50_dd: "max_dd [Fin 50, Fin 50, Fin 50, Fin 50] = Inr (Fin 0)"
  by (simp add: max_dd_def drawdowns_def fl_sub_def small_roundings)

lemma c50_ann: "ann_return [Fin 50, Fin 50, Fin 50, Fin 50] af = Fin 0"
  by (simp add: ann_return_def fl_sub_def small_roundings)

lemma zero_noise_ratio: "snd (trend ys) = Fin 0 \<Longrightarrow> slope_to_noise trend ys = Fin 0"
  by (cases "trend ys") (simp add: slope_to_noise_def)

lemma nonzero_noise_ratio:
  "snd (trend ys) \<noteq> Fin 0 \<Longrightarrow> slope_to_noise trend ys = fl_div (fst (trend ys)) (snd (trend ys))"
  by (cases "trend ys") (simp add: slope_to_noise_def)

lemma zero_noise_score:
  assumes len: "2 \<le> length rs" and valid: "\<forall>r\<in>set rs. float_price r"
    and flat: "snd (trend (map (\<lambda>r. round_real (ln r)) rs)) = Fin 0"
  shows "\<exists>dd. max_dd (map Fin rs) = Inr dd \<and>
           compute_stock_score trend (map Fin rs) w_ret w_dd w_stn af =
             Inr (fl_add
                   (fl_add (fl_mul w_ret (ann_return (map Fin rs) af)) (fl_mul w_dd dd))
                   (fl_mul w_stn (Fin 0)))"
proof -
  from len have ne: "rs \<noteq> []" by auto
  from flat have "slope_to_noise trend (map (\<lambda>r. round_real (ln r)) rs) = Fin 0"
    by (rule zero_noise_ratio)
  with score_valid [OF len valid, of trend w_ret w_dd w_stn af]
  show ?thesis by (simp add: max_dd_value [OF ne valid])
qed

lemma constant_score:
  assumes "snd (trend (map (\<lambda>r. round_real (ln r)) [50, 50, 50, 50])) = Fin 0"
  shows "compute_stock_score trend [Fin 50, Fin 50, Fin 50, Fin 50] w_ret (Fin b) (Fin c) af =
         Inr (fl_mul w_ret (Fin 0))"
proof -
  have "fl_add (fl_add (fl_mul w_ret (Fin 0)) (Fin 0)) (Fin 0) = fl_mul w_ret (Fin 0)"
    by (cases w_ret) (simp_all add: signed_inf_def small_roundings)
  moreover from assms
  have "slope_to_noise trend (map (\<lambda>r. round_real (ln r)) [50, 50, 50, 50]) = Fin 0"
    by (rule zero_noise_ratio)
  ultimately show ?thesis
    by (simp add: compute_stock_score_def c50_dd c50_ann small_roundings)
qed

text \<open>
  The difference \<open>10^17 - 1\<close> is not a binary64 number: the spacing there is 16, and it
  rounds to \<open>10^17\<close>.
\<close>

lemma float_price_1e17: "float_price 100000000000000000"
  using is_float_scaled [of 762939453125 17] by (simp add: float_price_def)

lemma round64_1e17_less_1: "round64 99999999999999999 = Fin 100000000000000000"
proof -
  have "round_real 99999999999999999 = 2 ^ 4 * real_of_int 6250000000000000"
    by (rule round_real_near) simp_all
  then have "round_real 99999999999999999 = 100000000000000000" by simp
  with range_bound_large show ?thesis by (simp add: round64_def overflow_def)
qed

lemma round64_1_less_1e17: "round64 (- 99999999999999999) = Fin (- 100000000000000000)"
proof -
  have "round_real 99999999999999999 = 2 ^ 4 * real_of_int 6250000000000000"
    by (rule round_real_near) simp_all
  then have "round_real (- 99999999999999999) = - 100000000000000000"
    by (simp add: round_real_minus)
  with range_bound_large show ?thesis by (simp add: round64_def overflow_def)
qed

lemma drawdowns_1e17:
  "drawdowns [Fin 100000000000000000, Fin 1] = [Fin 0, Fin 1]"
  by (simp add: drawdowns_def fl_sub_def round64_1e17_less_1 small_roundings)

section \<open>The scenario of four prices, scorer side\<close>

lemma scen_dd: "drawdowns [Fin 100, Fin 120, Fin 90, Fin 150] = [Fin 0, Fin 0, Fin (1/4), Fin 0]"
  by (simp add: drawdowns_def fl_sub_def small_roundings)

lemma scen_max_dd: "max_dd [Fin 100, Fin 120, Fin 90, Fin 150] = Inr (Fin (1/4))"
  by (simp add: max_dd_def scen_dd)

lemma scen_ann: "ann_return [Fin 100, Fin 120, Fin 90, Fin 150] 4 = Fin (1/2)"
  by (simp add: ann_return_def fl_sub_def true_divide_def round_real_1 small_roundings)


section \<open>A quotient beyond the range\<close>

lemma float_price_huge: "float_price huge_price"
  unfolding float_price_def huge_price_def
  by (intro conjI is_float_power2) simp_all

lemma float_price_tiny: "float_price tiny_price"
proof -
  have "is_float (real_of_int 1 / 2 ^ 600)" by (rule is_float_dyadic) simp_all
  then have "is_float tiny_price" by (simp only: tiny_price_def of_int_1)
  moreover have "0 < tiny_price" unfolding tiny_price_def by (rule divide_pos_pos) simp_all
  ultimately show ?thesis by (simp only: float_price_def)
qed

lemma huge_by_tiny: "fl_div (Fin huge_price) (Fin tiny_price) = PInf"
proof -
  have nz: "tiny_price \<noteq> 0" using float_price_tiny by (simp add: float_price_def)
  have "huge_price / tiny_price = 2 ^ 600 * 2 ^ 600"
    by (simp only: huge_price_def tiny_price_def divide_divide_eq_right mult_1 div_by_1 times_divide_eq_left)
  also have "\<dots> = 2 ^ (600 + 600)" by (rule power_add [symmetric])
  finally have "round64 (huge_price / tiny_price) = round64 (2 ^ (600 + 600))" by (simp only:)
  also have "\<dots> = PInf" by (rule round64_power2_overflow) simp
  finally show ?thesis using nz by simp
qed

lemma huge_return: "fl_sub (fl_div (Fin huge_price) (Fin tiny_price)) (Fin 1) = PInf"
  by (simp add: huge_by_tiny fl_sub_def del: fl_div.simps)

section \<open>The columns and the key statistics of the risk profile\<close>

lemma shift_nth:
  "t < length ys \<Longrightarrow> shift k ys ! t = (if t < k then NaN else ys ! (t - k))"
  by (auto simp: shift_def nth_append)

lemma length_shift: "length (shift k ys) = length ys"
  by (simp add: shift_def)

lemma length_pct_change: "length (pct_change k xs) = length xs"
  by (simp add: pct_change_def length_shift)

lemma pct_change_nth:
  "t < length xs \<Longrightarrow>
   pct_change k xs ! t =
     (if t < k then NaN else fl_sub (fl_div (Fin (xs ! t)) (Fin (xs ! (t - k)))) (Fin 1))"
  by (simp add: pct_change_def length_shift shift_nth fl_sub_def)


text \<open>The comparison is a strict order on the numbers other than NaN.\<close>

lemma fl_lt_irrefl: "\<not> fl_lt a a"
  by (cases a) simp_all

lemma fl_lt_trans: "fl_lt a b \<Longrightarrow> fl_lt b c \<Longrightarrow> fl_lt a c"
  by (cases a; cases b; cases c) simp_all

lemma fl_lt_asym: "fl_lt a b \<Longrightarrow> \<not> fl_lt b a"
  by (cases a; cases b) simp_all

lemma fl_lt_below: "fl_lt v m \<Longrightarrow> \<not> fl_lt d m \<Longrightarrow> d \<noteq> NaN \<Longrightarrow> fl_lt v d"
  by (cases v; cases m; cases d) simp_all

lemma argmin_from_step:
  assumes "j < i" and "m \<noteq> NaN" and "NaN \<notin> set xs"
  shows "\<exists>k v. argmin_from i (Some (j, m)) xs = Some (k, v) \<and>
     ((k = j \<and> v = m \<and> (\<forall>t<length xs. \<not> fl_lt (xs ! t) m)) \<or>
      (i \<le> k \<and> k - i < length xs \<and> v = xs ! (k - i) \<and> fl_lt v m \<and>
       (\<forall>t<length xs. \<not> fl_lt (xs ! t) v) \<and> (\<forall>t<k - i. fl_lt v (xs ! t))))"
  using assms
proof (induction xs arbitrary: i j m)
  case Nil
  then show ?case by simp
next
  case (Cons d ds)
  from Cons.prems have d: "d \<noteq> NaN" and ds: "NaN \<notin> set ds" by auto
  show ?case
  proof (cases "fl_lt d m")
    case True
    from Cons.IH [of i "Suc i" d, OF _ d ds] obtain k v where
      r: "argmin_from (Suc i) (Some (i, d)) ds = Some (k, v)" and
      c: "(k = i \<and> v = d \<and> (\<forall>t<length ds. \<not> fl_lt (ds ! t) d)) \<or>
          (Suc i \<le> k \<and> k - Suc i < length ds \<and> v = ds ! (k - Suc i) \<and> fl_lt v d \<and>
           (\<forall>t<length ds. \<not> fl_lt (ds ! t) v) \<and> (\<forall>t<k - Suc i. fl_lt v (ds ! t)))"
      by auto
    from True d r have res: "argmin_from i (Some (j, m)) (d # ds) = Some (k, v)"
      by simp
    from c have "i \<le> k \<and> k - i < length (d # ds) \<and> v = (d # ds) ! (k - i) \<and> fl_lt v m \<and>
       (\<forall>t<length (d # ds). \<not> fl_lt ((d # ds) ! t) v) \<and> (\<forall>t<k - i. fl_lt v ((d # ds) ! t))"
    proof
      assume "k = i \<and> v = d \<and> (\<forall>t<length ds. \<not> fl_lt (ds ! t) d)"
      with True show ?thesis by (auto simp: nth_Cons' fl_lt_irrefl)
    next
      assume a: "Suc i \<le> k \<and> k - Suc i < length ds \<and> v = ds ! (k - Suc i) \<and> fl_lt v d \<and>
           (\<forall>t<length ds. \<not> fl_lt (ds ! t) v) \<and> (\<forall>t<k - Suc i. fl_lt v (ds ! t))"
      then have k: "k - i = Suc (k - Suc i)" by arith
      from a have vd: "fl_lt v d" by blast
      from vd True have "fl_lt v m" by (rule fl_lt_trans)
      moreover from vd have "\<not> fl_lt d v" by (rule fl_lt_asym)
      with a have "\<forall>t<length (d # ds). \<not> fl_lt ((d # ds) ! t) v"
        by (auto simp: nth_Cons')
      moreover from a vd have "\<forall>t<k - i. fl_lt v ((d # ds) ! t)"
        unfolding k by (auto simp: nth_Cons')
      ultimately show ?thesis using a k by auto
    qed
    with res show ?thesis by blast
  next
    case False
    from Cons.prems have "j < Suc i" by simp
    from Cons.IH [OF this Cons.prems(2) ds] obtain k v where
      r: "argmin_from (Suc i) (Some (j, m)) ds = Some (k, v)" and
      c: "(k = j \<and> v = m \<and> (\<forall>t<length ds. \<not> fl_lt (ds ! t) m)) \<or>
          (Suc i \<le> k \<and> k - Suc i < length ds \<and> v = ds ! (k - Suc i) \<and> fl_lt v m \<and>
           (\<forall>t<length ds. \<not> fl_lt (ds ! t) v) \<and> (\<forall>t<k - Suc i. fl_lt v (ds ! t)))"
      by auto
    from False d r have res: "argmin_from i (Some (j, m)) (d # ds) = Some (k, v)"
      by simp
    from c show ?thesis
    proof
      assume "k = j \<and> v = m \<and> (\<forall>t<length ds. \<not> fl_lt (ds ! t) m)"
      with False have "k = j \<and> v = m \<and> (\<forall>t<length (d # ds). \<not> fl_lt ((d # ds) ! t) m)"
        by (auto simp: nth_Cons')
      with res show ?thesis by blast
    next
      assume a: "Suc i \<le> k \<and> k - Suc i < length ds \<and> v = ds ! (k - Suc i) \<and> fl_lt v m \<and>
           (\<forall>t<length ds. \<not> fl_lt (ds ! t) v) \<and> (\<forall>t<k - Suc i. fl_lt v (ds ! t))"
      then have k: "k - i = Suc (k - Suc i)" by arith
      from a have vm: "fl_lt v m" by blast
      from vm False d have vd: "fl_lt v d" by (rule fl_lt_below)
      then have "\<not> fl_lt d v" by (rule fl_lt_asym)
      with a have "\<forall>t<length (d # ds). \<not> fl_lt ((d # ds) ! t) v"
        by (auto simp: nth_Cons')
      moreover from a vd have "\<forall>t<k - i. fl_lt v ((d # ds) ! t)"
        unfolding k by (auto simp: nth_Cons')
      ultimately have "i \<le> k \<and> k - i < length (d # ds) \<and> v = (d # ds) ! (k - i) \<and> fl_lt v m \<and>
         (\<forall>t<length (d # ds). \<not> fl_lt ((d # ds) ! t) v) \<and> (\<forall>t<k - i. fl_lt v ((d # ds) ! t))"
        using a k by auto
      with res show ?thesis by blast
    qed
  qed
qed

lemma argmin_first_minimum:
  assumes "xs \<noteq> []" and "NaN \<notin> set xs"
  shows "\<exists>k. argmin_from 0 None xs = Some (k, xs ! k) \<and> k < length xs \<and>
           (\<forall>t<length xs. \<not> fl_lt (xs ! t) (xs ! k)) \<and> (\<forall>t<k. fl_lt (xs ! k) (xs ! t))"
proof -
  from assms(1) obtain d ds where xs: "xs = d # ds" by (cases xs) auto
  with assms(2) have d: "d \<noteq> NaN" and ds: "NaN \<notin> set ds" by auto
  from d have start: "argmin_from 0 None xs = argmin_from (Suc 0) (Some (0, d)) ds"
    by (simp add: xs)
  from argmin_from_step [of 0 "Suc 0" d ds, OF _ d ds] obtain k v where
    r: "argmin_from (Suc 0) (Some (0, d)) ds = Some (k, v)" and
    c: "(k = 0 \<and> v = d \<and> (\<forall>t<length ds. \<not> fl_lt (ds ! t) d)) \<or>
        (Suc 0 \<le> k \<and> k - Suc 0 < length ds \<and> v = ds ! (k - Suc 0) \<and> fl_lt v d \<and>
         (\<forall>t<length ds. \<not> fl_lt (ds ! t) v) \<and> (\<forall>t<k - Suc 0. fl_lt v (ds ! t)))"
    by auto
  from c have "v = xs ! k \<and> k < length xs \<and>
           (\<forall>t<length xs. \<not> fl_lt (xs ! t) (xs ! k)) \<and> (\<forall>t<k. fl_lt (xs ! k) (xs ! t))"
  proof
    assume "k = 0 \<and> v = d \<and> (\<forall>t<length ds. \<not> fl_lt (ds ! t) d)"
    then show ?thesis by (auto simp: xs nth_Cons' fl_lt_irrefl)
  next
    assume a: "Suc 0 \<le> k \<and> k - Suc 0 < length ds \<and> v = ds ! (k - Suc 0) \<and> fl_lt v d \<and>
         (\<forall>t<length ds. \<not> fl_lt (ds ! t) v) \<and> (\<forall>t<k - Suc 0. fl_lt v (ds ! t))"
    then obtain k' where k: "k = Suc k'" by (cases k) auto
    from a have vd: "fl_lt v d" by blast
    then have nd: "\<not> fl_lt d v" by (rule fl_lt_asym)
    from a k have v: "v = xs ! k" and kl: "k < length xs" by (simp_all add: xs)
    from a k nd have "\<forall>t<length xs. \<not> fl_lt (xs ! t) v"
      by (auto simp: xs nth_Cons')
    moreover from a k vd have "\<forall>t<k. fl_lt v (xs ! t)"
      by (auto simp: xs nth_Cons')
    ultimately show ?thesis using v kl by simp
  qed
  with start r show ?thesis by auto
qed

lemma get_loc_nth:
  assumes "distinct idx" and "i < length idx"
  shows "get_loc idx (idx ! i) = i"
proof -
  have "takeWhile (\<lambda>x. x \<noteq> idx ! i) idx = take i idx"
  proof (rule takeWhile_eq_take_P_nth)
    fix k assume "k < i" and "k < length idx"
    with assms show "idx ! k \<noteq> idx ! i" by (simp add: nth_eq_iff_index_eq)
  next
    show "\<not> idx ! i \<noteq> idx ! i" by simp
  qed
  with assms(2) show ?thesis by (simp add: get_loc_def)
qed

lemma filter_first:
  assumes "filter P xs = y # ys"
  shows "\<exists>j<length xs. y = xs ! j \<and> P (xs ! j) \<and> (\<forall>t<j. \<not> P (xs ! t))"
proof -
  from assms obtain us vs where xs: "xs = us @ y # vs" and us: "\<forall>u\<in>set us. \<not> P u" and y: "P y"
    by (auto simp: filter_eq_Cons_iff)
  have "\<forall>t<length us. \<not> P (xs ! t)"
    using us by (simp add: xs nth_append)
  with xs y show ?thesis by (intro exI [of _ "length us"]) simp
qed


lemma length_drawdown_column: "length (drawdown_column df) = length (Close df)"
  by (simp add: drawdown_column_def peak_column_def length_cummax)

lemma cummax_positive:
  assumes "\<forall>c\<in>set cl. 0 < c" and "t < length cl"
  shows "0 < cummax cl ! t"
proof -
  from assms have "0 < cl ! t" by simp
  with cummax_ge_self [OF assms(2)] show ?thesis by simp
qed


lemma drawdown_column_nth:
  assumes t: "t < length (Close df)"
  shows "drawdown_column df ! t =
         fl_div (fl_sub (Fin (Close df ! t)) (Fin (cummax (Close df) ! t))) (Fin (cummax (Close df) ! t))"
  using t by (simp add: drawdown_column_def peak_column_def length_cummax)

lemma drawdown_column_not_NaN:
  assumes valid: "\<forall>c\<in>set (Close df). valid_price c"
  shows "NaN \<notin> set (drawdown_column df)"
proof
  assume "NaN \<in> set (drawdown_column df)"
  then obtain t where t: "t < length (Close df)" and nan: "drawdown_column df ! t = NaN"
    by (auto simp: in_set_conv_nth length_drawdown_column)
  from valid have "\<forall>c\<in>set (Close df). 0 < c" by (simp add: valid_price_def)
  from cummax_positive [OF this t] have "0 < cummax (Close df) ! t" .
  from drawdown_entry_not_NaN [OF this] nan show False
    by (simp add: drawdown_column_nth [OF t])
qed

lemma key_statistics_valid:
  assumes ok: "frame_ok df" and ne: "Close df \<noteq> []"
    and pos: "\<forall>c\<in>set (Close df). valid_price c"
  shows "\<exists>st i j. key_statistics df = Inr st \<and>
      i < length (Close df) \<and> max_drawdown_date st = index df ! i \<and>
      max_drawdown_value st = drawdown_column df ! i \<and>
      (\<forall>t<length (Close df). \<not> fl_lt (drawdown_column df ! t) (drawdown_column df ! i)) \<and>
      (\<forall>t<i. fl_lt (drawdown_column df ! i) (drawdown_column df ! t)) \<and>
      j \<le> i \<and> peak_date st = index df ! j \<and>
      Close df ! j = peak_column df ! i \<and>
      (\<forall>t<j. Close df ! t \<noteq> peak_column df ! i) \<and>
      recovery_date st =
        (case filter (\<lambda>(d, c). peak_column df ! i \<le> c) (drop i (rows df)) of
           [] \<Rightarrow> None | r # rs \<Rightarrow> Some (fst r))"
proof -
  let ?cl = "Close df" and ?idx = "index df"
  let ?n = "length ?cl"
  let ?ds = "drawdown_column df"
  from ok have len: "length ?idx = ?n" and dist: "distinct ?idx" by (simp_all add: frame_ok_def)
  have dlen: "length ?ds = ?n" by (rule length_drawdown_column)
  from ne dlen have "?ds \<noteq> []" by auto
  from argmin_first_minimum [OF this drawdown_column_not_NaN [OF pos]] obtain i where
    am: "argmin_from 0 None ?ds = Some (i, ?ds ! i)" and i: "i < ?n" and
    least: "\<forall>t<?n. \<not> fl_lt (?ds ! t) (?ds ! i)" and first: "\<forall>t<i. fl_lt (?ds ! i) (?ds ! t)"
    unfolding dlen by auto
  from am have trough: "idxmin ?idx ?ds = Inr (?idx ! i)"
    by (simp add: idxmin_def)
  from am have smin: "series_min ?ds = ?ds ! i"
    by (simp add: series_min_def)
  from i len have loc: "get_loc ?idx (?idx ! i) = i" by (simp add: get_loc_nth [OF dist])
  let ?pv = "peak_column df ! i"
  let ?P = "\<lambda>(d, c). c = ?pv"
  from cummax_attained [OF i] obtain j0 where j0: "j0 \<le> i" and at: "?cl ! j0 = ?pv"
    by (auto simp: peak_column_def)
  from j0 i len have "j0 < length (rows df)" by (simp add: rows_def)
  then have "rows df ! j0 \<in> set (rows df)" by (rule nth_mem)
  moreover from j0 i len at have "?P (rows df ! j0)" by (simp add: rows_def)
  ultimately have "filter ?P (rows df) \<noteq> []" by (auto simp: filter_empty_conv)
  then obtain y ys where f: "filter ?P (rows df) = y # ys" by (cases "filter ?P (rows df)") auto
  from filter_first [OF f] obtain j where j: "j < length (rows df)" and y: "y = rows df ! j"
    and Pj: "?P (rows df ! j)" and before: "\<forall>t<j. \<not> ?P (rows df ! t)"
    by auto
  from j len have jn: "j < ?n" by (simp add: rows_def)
  from jn len y have y': "y = (?idx ! j, ?cl ! j)" by (simp add: rows_def)
  from Pj jn len have cj: "?cl ! j = ?pv" by (simp add: rows_def)
  have bj: "\<forall>t<j. ?cl ! t \<noteq> ?pv"
  proof (intro allI impI)
    fix t assume t: "t < j"
    with before have "\<not> ?P (rows df ! t)" by simp
    with t jn len show "?cl ! t \<noteq> ?pv" by (simp add: rows_def)
  qed
  have ji: "j \<le> i"
  proof (rule ccontr)
    assume "\<not> j \<le> i"
    with j0 have "j0 < j" by simp
    with bj at show False by simp
  qed
  let ?st = "\<lparr>max_drawdown_date = ?idx ! i,
              max_drawdown_value = series_min ?ds,
              peak_date = ?idx ! j,
              recovery_date =
                (case map fst (filter (\<lambda>(d, c). ?pv \<le> c) (drop i (rows df))) of
                   [] \<Rightarrow> None | r # rs \<Rightarrow> Some r)\<rparr>"
  from trough loc f y' have ks: "key_statistics df = Inr ?st"
    by (simp add: key_statistics_def Let_def)
  have rec: "recovery_date ?st =
        (case filter (\<lambda>(d, c). ?pv \<le> c) (drop i (rows df)) of
           [] \<Rightarrow> None | r # rs \<Rightarrow> Some (fst r))"
    by (simp split: list.splits)
  from ks i smin least first ji cj bj rec show ?thesis
    by (intro exI [of _ ?st] exI [of _ i] exI [of _ j]) simp
qed

section \<open>The frame after the call\<close>

lemma five_updates_dom:
  "dom (m(a \<mapsto> v1, b \<mapsto> v2, c \<mapsto> v3, d \<mapsto> v4, e \<mapsto> v5)) = dom m \<union> {a, b, c, d, e}"
  by auto

lemma five_updates_other:
  "k \<notin> {a, b, c, d, e} \<Longrightarrow> (m(a \<mapsto> v1, b \<mapsto> v2, c \<mapsto> v3, d \<mapsto> v4, e \<mapsto> v5)) k = m k"
  by simp

lemma five_updates_again:
  "(m(a \<mapsto> v1, b \<mapsto> v2, c \<mapsto> v3, d \<mapsto> v4, e \<mapsto> v5))
     (a \<mapsto> v1, b \<mapsto> v2, c \<mapsto> v3, d \<mapsto> v4, e \<mapsto> v5) =
   m(a \<mapsto> v1, b \<mapsto> v2, c \<mapsto> v3, d \<mapsto> v4, e \<mapsto> v5)"
  by (rule ext) simp

lemma five_updates_same:
  "\<forall>k\<in>{a, b, c, d, e}.
     (m(a \<mapsto> v1, b \<mapsto> v2, c \<mapsto> v3, d \<mapsto> v4, e \<mapsto> v5)) k =
     (m'(a \<mapsto> v1, b \<mapsto> v2, c \<mapsto> v3, d \<mapsto> v4, e \<mapsto> v5)) k"
  by simp

lemma frame_update_fields:
  "index (df\<lparr>columns := X\<rparr>) = index df" "Close (df\<lparr>columns := X\<rparr>) = Close df"
  "columns (df\<lparr>columns := X\<rparr>) = X" "df\<lparr>columns := X, columns := Y\<rparr> = df\<lparr>columns := Y\<rparr>"
  by simp_all

lemma with_metrics_fields:
  "index (with_metrics df) = index df" "Close (with_metrics df) = Close df"
  by (simp_all only: with_metrics_def frame_update_fields)

lemma key_statistics_reads:
  assumes a: "index df' = index df" and b: "Close df' = Close df"
  shows "key_statistics df' = key_statistics df"
proof -
  have p: "peak_column df' = peak_column df" by (simp add: peak_column_def b)
  have d: "drawdown_column df' = drawdown_column df" by (simp add: drawdown_column_def p b)
  have r: "rows df' = rows df" by (simp add: rows_def a b)
  show ?thesis unfolding key_statistics_def a p d r ..
qed

lemma with_metrics_again: "with_metrics (with_metrics df) = with_metrics df"
proof -
  have p: "peak_column (with_metrics df) = peak_column df"
    by (simp only: peak_column_def with_metrics_fields)
  have d: "drawdown_column (with_metrics df) = drawdown_column df"
    by (simp only: drawdown_column_def p with_metrics_fields)
  have "with_metrics (with_metrics df) =
        (with_metrics df)\<lparr>columns := (columns (with_metrics df))
        (''Peak'' \<mapsto> map Fin (peak_column df),
         ''Drawdown'' \<mapsto> drawdown_column df,
         ''Return_1Y'' \<mapsto> pct_change 252 (Close df),
         ''Return_2Y'' \<mapsto> pct_change 504 (Close df),
         ''Return_3Y'' \<mapsto> pct_change (252 * 3) (Close df))\<rparr>"
    by (subst with_metrics_def) (simp only: p d with_metrics_fields)
  also have "\<dots> = with_metrics df"
    by (simp only: with_metrics_def frame_update_fields five_updates_again)
  finally show ?thesis .
qed

lemma dom_with_metrics:
  "dom (columns (with_metrics df)) =
     dom (columns df) \<union> {''Peak'', ''Drawdown'', ''Return_1Y'', ''Return_2Y'', ''Return_3Y''}"
  by (simp only: with_metrics_def frame_update_fields five_updates_dom)

lemma other_columns_kept:
  "name \<notin> {''Peak'', ''Drawdown'', ''Return_1Y'', ''Return_2Y'', ''Return_3Y''} \<Longrightarrow>
   columns (with_metrics df) name = columns df name"
  unfolding with_metrics_def frame_update_fields by (rule five_updates_other)

lemma metric_columns_recomputed:
  assumes "Close df' = Close df"
  shows "\<forall>c\<in>{''Peak'', ''Drawdown'', ''Return_1Y'', ''Return_2Y'', ''Return_3Y''}.
           columns (with_metrics df') c = columns (with_metrics df) c"
proof -
  have p: "peak_column df' = peak_column df" by (simp add: peak_column_def assms)
  have d: "drawdown_column df' = drawdown_column df" by (simp add: drawdown_column_def p assms)
  show ?thesis
    unfolding with_metrics_def frame_update_fields p d assms by (rule five_updates_same)
qed

section \<open>The scorer on short series\<close>

text \<open>
  C6: on a series of fewer than 2 points \<^verbatim>\<open>compute_stock_score\<close> returns minus infinity,
  as a value and not as an exception, whatever the weights, the annualization factor, the
  prices and the behaviour of the library are.
\<close>

theorem short_series_sentinel:
  "length price_series < 2 \<Longrightarrow>
   compute_stock_score trend price_series w_ret w_dd w_stn annualization_factor = Inr NInf"
  by (simp add: compute_stock_score_def)

theorem short_series_sentinel_witness:
  "length [Fin 100] < 2 \<and>
   compute_stock_score constant_fit [Fin 100] (Fin 2) (Fin (- 3)) (Fin 1) 252 = Inr NInf \<and>
   compute_stock_score constant_fit [] NaN PInf (Fin 0) 0 = Inr NInf"
  using short_series_sentinel [of "[Fin 100]" constant_fit "Fin 2" "Fin (- 3)" "Fin 1" 252]
    short_series_sentinel [of "[]" constant_fit NaN PInf "Fin 0" 0]
  by simp

section \<open>The scorer on invalid prices\<close>

text \<open>
  C3 (as the code has it): \<^verbatim>\<open>compute_stock_score\<close> has no check of its own on the price
  values and raises no \<^verbatim>\<open>DomainError\<close>. A series that holds a price that is not
  finite and strictly positive gets the minus-infinity sentinel when it has fewer than 2
  points, the length being tested first; with 2 points or more its logarithms hold NaN or
  an infinity, and the call ends with the \<^verbatim>\<open>ValueError\<close> of the regression's input
  check. No value is clamped or replaced on the way.
\<close>

theorem corrupt_prices_outcome:
  assumes "\<exists>p\<in>set price_series. \<not> positive_finite p"
  shows "compute_stock_score trend price_series w_ret w_dd w_stn af =
         (if length price_series < 2 then Inr NInf else Inl ValueError)"
proof (cases "length price_series < 2")
  case True
  then show ?thesis by (simp add: compute_stock_score_def)
next
  case False
  then have "price_series \<noteq> []" by auto
  from max_dd_returns [OF this] obtain d where "max_dd price_series = Inr d" ..
  with False finite_values_rejects [OF assms] show ?thesis
    by (simp add: compute_stock_score_def)
qed

theorem corrupt_prices_outcome_witness:
  "compute_stock_score constant_fit [Fin 100, Fin 0, Fin 50] (Fin 2) (Fin (- 3)) (Fin 1) 252 =
     Inl ValueError \<and>
   compute_stock_score constant_fit [Fin 100, NaN] (Fin 2) (Fin (- 3)) (Fin 1) 252 = Inl ValueError \<and>
   compute_stock_score constant_fit [PInf] (Fin 2) (Fin (- 3)) (Fin 1) 252 = Inr NInf"
  using corrupt_prices_outcome
      [of "[Fin 100, Fin 0, Fin 50]" constant_fit "Fin 2" "Fin (- 3)" "Fin 1" 252]
    corrupt_prices_outcome [of "[Fin 100, NaN]" constant_fit "Fin 2" "Fin (- 3)" "Fin 1" 252]
    corrupt_prices_outcome [of "[PInf]" constant_fit "Fin 2" "Fin (- 3)" "Fin 1" 252]
  by simp

text \<open>
  The claim as the spec words it fails on a one-point series with a negative price: the
  call returns the sentinel, and no error reaches the caller.
\<close>

theorem negative_single_price_not_rejected:
  "\<not> positive_finite (Fin (- 5)) \<and>
   compute_stock_score constant_fit [Fin (- 5)] (Fin 2) (Fin (- 3)) (Fin 1) 252 = Inr NInf"
  by (simp add: compute_stock_score_def)

section \<open>The maximum drawdown of the scorer\<close>

text \<open>
  C5 (as the code has it): for a series of at least 2 strictly positive binary64 prices, the
  maximum drawdown that \<^verbatim>\<open>compute_stock_score\<close> computes (line 42) is a number in the
  interval from 0 to 1, both included, and it is 0 exactly when the series is
  non-decreasing. The value 1 is reached when a price is so far under its running maximum
  that the difference rounds to the maximum itself.
\<close>

theorem max_drawdown_closed_interval:
  assumes "2 \<le> length rs" and "\<forall>r\<in>set rs. float_price r"
  shows "\<exists>m. max_dd (map Fin rs) = Inr (Fin m) \<and> 0 \<le> m \<and> m \<le> 1 \<and> (m = 0 \<longleftrightarrow> sorted rs)"
proof -
  from assms(1) have ne: "rs \<noteq> []" by auto
  from max_dd_value [OF ne assms(2)] max_dd_bounds [OF ne assms(2)] show ?thesis by blast
qed

theorem max_drawdown_closed_interval_witness:
  "\<exists>m. max_dd (map Fin [100, 120, 90, 150]) = Inr (Fin m) \<and> 0 \<le> m \<and> m \<le> 1 \<and>
       (m = 0 \<longleftrightarrow> sorted [100, 120, 90, 150 :: real])"
  using max_drawdown_closed_interval [of "[100, 120, 90, 150]"]
  by (simp add: float_price_numeral)

text \<open>
  The claim as the spec words it, a maximum drawdown strictly below 1, fails on the two
  prices \<open>10^17\<close> and 1: \<open>10^17 - 1\<close> rounds to \<open>10^17\<close>, and the drawdown is exactly 1.
\<close>

theorem max_drawdown_reaches_one:
  "float_price 100000000000000000 \<and> float_price 1 \<and>
   max_dd [Fin 100000000000000000, Fin 1] = Inr (Fin 1)"
  by (simp add: float_price_1e17 float_price_1 max_dd_def drawdowns_1e17)

section \<open>The score of a valid series\<close>




section \<open>The degenerate trend fit\<close>

text \<open>
  C9: when the library reports a noise of 0 (the standard deviation of the residuals of the
  fit), \<^verbatim>\<open>compute_stock_score\<close> takes 0 for the slope-to-noise ratio instead of dividing
  (it divides the slope by the noise in every other case), and returns a score (no error)
  whose trend term is the weight times 0. On the constant
  series 50, 50, 50, 50 the maximum drawdown is 0 and the annualized return is 0; with the
  noise 0 that the fit of a constant series has, the ratio is 0 and, for finite drawdown
  and trend weights, the score is the return weight times 0.
\<close>

theorem degenerate_noise:
  "(snd (trend ys) = Fin 0 \<longrightarrow> slope_to_noise trend ys = Fin 0) \<and>
   (snd (trend ys) \<noteq> Fin 0 \<longrightarrow>
      slope_to_noise trend ys = fl_div (fst (trend ys)) (snd (trend ys))) \<and>
   (2 \<le> length rs \<and> (\<forall>r\<in>set rs. float_price r) \<and>
    snd (trend (map (\<lambda>r. round_real (ln r)) rs)) = Fin 0 \<longrightarrow>
      (\<exists>dd. max_dd (map Fin rs) = Inr dd \<and>
         compute_stock_score trend (map Fin rs) w_ret w_dd w_stn af =
           Inr (fl_add
                 (fl_add (fl_mul w_ret (ann_return (map Fin rs) af)) (fl_mul w_dd dd))
                 (fl_mul w_stn (Fin 0))))) \<and>
   max_dd [Fin 50, Fin 50, Fin 50, Fin 50] = Inr (Fin 0) \<and>
   ann_return [Fin 50, Fin 50, Fin 50, Fin 50] k = Fin 0 \<and>
   (snd (trend (map (\<lambda>r. round_real (ln r)) [50, 50, 50, 50])) = Fin 0 \<longrightarrow>
      slope_to_noise trend (map (\<lambda>r. round_real (ln r)) [50, 50, 50, 50]) = Fin 0 \<and>
      compute_stock_score trend [Fin 50, Fin 50, Fin 50, Fin 50] w (Fin b) (Fin c) k =
        Inr (fl_mul w (Fin 0)))"
proof (intro conjI impI)
  assume "snd (trend ys) = Fin 0"
  then show "slope_to_noise trend ys = Fin 0" by (rule zero_noise_ratio)
next
  assume "snd (trend ys) \<noteq> Fin 0"
  then show "slope_to_noise trend ys = fl_div (fst (trend ys)) (snd (trend ys))"
    by (rule nonzero_noise_ratio)
next
  assume h: "2 \<le> length rs \<and> (\<forall>r\<in>set rs. float_price r) \<and>
    snd (trend (map (\<lambda>r. round_real (ln r)) rs)) = Fin 0"
  then have a: "2 \<le> length rs" and b: "\<forall>r\<in>set rs. float_price r"
    and c: "snd (trend (map (\<lambda>r. round_real (ln r)) rs)) = Fin 0" by blast+
  from c show "\<exists>dd. max_dd (map Fin rs) = Inr dd \<and>
         compute_stock_score trend (map Fin rs) w_ret w_dd w_stn af =
           Inr (fl_add
                 (fl_add (fl_mul w_ret (ann_return (map Fin rs) af)) (fl_mul w_dd dd))
                 (fl_mul w_stn (Fin 0)))"
    by (rule zero_noise_score [OF a b])
next
  show "max_dd [Fin 50, Fin 50, Fin 50, Fin 50] = Inr (Fin 0)" by (rule c50_dd)
next
  show "ann_return [Fin 50, Fin 50, Fin 50, Fin 50] k = Fin 0" by (rule c50_ann)
next
  assume "snd (trend (map (\<lambda>r. round_real (ln r)) [50, 50, 50, 50])) = Fin 0"
  then show "slope_to_noise trend (map (\<lambda>r. round_real (ln r)) [50, 50, 50, 50]) = Fin 0"
    by (rule zero_noise_ratio)
next
  assume "snd (trend (map (\<lambda>r. round_real (ln r)) [50, 50, 50, 50])) = Fin 0"
  then show "compute_stock_score trend [Fin 50, Fin 50, Fin 50, Fin 50] w (Fin b) (Fin c) k =
        Inr (fl_mul w (Fin 0))"
    by (rule constant_score)
qed

theorem degenerate_noise_witness:
  "slope_to_noise constant_fit (map (\<lambda>r. round_real (ln r)) [50, 50, 50, 50]) = Fin 0 \<and>
   slope_to_noise sample_fit [0, 1] = Fin (3 / 2) \<and>
   (\<exists>dd. max_dd (map Fin [50, 50, 50, 50]) = Inr dd \<and>
      compute_stock_score constant_fit (map Fin [50, 50, 50, 50]) (Fin 2) (Fin (- 3)) (Fin 1) 252 =
        Inr (fl_add
              (fl_add (fl_mul (Fin 2) (ann_return (map Fin [50, 50, 50, 50]) 252))
                 (fl_mul (Fin (- 3)) dd))
              (fl_mul (Fin 1) (Fin 0)))) \<and>
   compute_stock_score constant_fit [Fin 50, Fin 50, Fin 50, Fin 50] (Fin 2) (Fin (- 3)) (Fin 1) 252 =
     Inr (Fin 0)"
  using degenerate_noise [of constant_fit "map (\<lambda>r. round_real (ln r)) [50, 50, 50, 50]"
      "[50, 50, 50, 50]" "Fin 2" "Fin (- 3)" "Fin 1" 252 252 "Fin 2" "- 3" 1]
    degenerate_noise [of sample_fit "[0, 1]"]
  by (simp add: constant_fit_def sample_fit_def float_price_numeral small_roundings)

section \<open>The scenario of four prices\<close>

text \<open>
  C1: for the prices 100, 120, 90, 150 on four equally spaced dates (days 0, 7, 14, 21)
  and an annualization factor of 4, the scorer's annualized return is
  \<open>(150/100)^(4/4) - 1 = 0.5\<close> and its maximum drawdown is \<open>(120 - 90)/120 = 0.25\<close>,
  attained at index 2; the risk profile puts the maximum drawdown at the date of index 2,
  the peak at the date of index 1 and the recovery at the date of index 3. The risk
  profile reports the drawdown with its sign, \<open>-0.25\<close>. Every intermediate result of
  the scenario is a binary64 number, so nothing is rounded.
\<close>

theorem four_price_scenario:
  "ann_return [Fin 100, Fin 120, Fin 90, Fin 150] 4 = Fin (1/2) \<and>
   max_dd [Fin 100, Fin 120, Fin 90, Fin 150] = Inr (Fin (1/4)) \<and>
   drawdowns [Fin 100, Fin 120, Fin 90, Fin 150] ! 2 = Fin (1/4) \<and>
   snd (calculate_metrics
          \<lparr>index = [0, 7, 14, 21 :: int], Close = [100, 120, 90, 150], columns = Map.empty\<rparr>) =
     Inr \<lparr>max_drawdown_date = 14, max_drawdown_value = Fin (- (1/4)),
          peak_date = 7, recovery_date = Some 21\<rparr>"
  by (simp add: scen_ann scen_max_dd scen_dd calculate_metrics_def key_statistics_def idxmin_def
      series_min_def drawdown_column_def peak_column_def get_loc_def rows_def fl_sub_def
      small_roundings)

section \<open>The drawdown curve of the risk profile\<close>

text \<open>
  C2 (as the code has it): for strictly positive binary64 closing prices, the \<^verbatim>\<open>Peak\<close>
  column at row \<open>t\<close> is the maximum of the prices up to \<open>t\<close>, and the \<^verbatim>\<open>Drawdown\<close>
  column is \<open>(price[t] - runningPeak[t]) / runningPeak[t]\<close> as binary64 arithmetic gives
  it (the difference rounded, then the quotient): the spec's quotient with the opposite
  sign. Every entry lies in the interval from -1 to 0, both included, and is 0 exactly at
  the rows where the price equals its running maximum.
\<close>

theorem drawdown_curve_value:
  assumes "\<forall>c\<in>set (Close df). float_price c" and "t < length (Close df)"
  shows "\<exists>peak col d.
      columns (fst (calculate_metrics df)) ''Peak'' = Some peak \<and>
      peak ! t = Fin (Max (set (take (Suc t) (Close df)))) \<and>
      columns (fst (calculate_metrics df)) ''Drawdown'' = Some col \<and>
      length col = length (Close df) \<and> col ! t = Fin d \<and>
      d = round_real
            (round_real (Close df ! t - Max (set (take (Suc t) (Close df)))) /
             Max (set (take (Suc t) (Close df)))) \<and>
      - 1 \<le> d \<and> d \<le> 0 \<and>
      (d = 0 \<longleftrightarrow> Close df ! t = Max (set (take (Suc t) (Close df))))"
proof -
  let ?c = "Close df ! t" and ?m = "cummax (Close df) ! t"
  from assms have c: "float_price ?c" by simp
  have mx: "?m = Max (set (take (Suc t) (Close df)))" by (rule cummax_nth [OF assms(2)])
  from drawdown_entry_signed [OF c cummax_float_price [OF assms] cummax_ge_self [OF assms(2)]]
  obtain d where "fl_div (fl_sub (Fin ?c) (Fin ?m)) (Fin ?m) = Fin d"
    and "d = round_real (round_real (?c - ?m) / ?m)" and "- 1 \<le> d" and "d \<le> 0"
    and "d = 0 \<longleftrightarrow> ?c = ?m"
    by blast
  with assms(2) show ?thesis
    unfolding mx [symmetric]
    by (simp add: calculate_metrics_def with_metrics_def length_drawdown_column
        drawdown_column_nth peak_column_def length_cummax)
qed

theorem drawdown_curve_value_witness:
  "\<exists>peak col d.
      columns (fst (calculate_metrics
         \<lparr>index = [0, 7, 14, 21 :: int], Close = [100, 120, 90, 150], columns = Map.empty\<rparr>)) ''Peak'' = Some peak \<and>
      peak ! 2 = Fin 120 \<and>
      columns (fst (calculate_metrics
         \<lparr>index = [0, 7, 14, 21 :: int], Close = [100, 120, 90, 150], columns = Map.empty\<rparr>)) ''Drawdown'' = Some col \<and>
      length col = 4 \<and> col ! 2 = Fin d \<and> d = - (1/4) \<and> - 1 \<le> d \<and> d \<le> 0 \<and> d \<noteq> 0"
  using drawdown_curve_value
    [of "\<lparr>index = [0, 7, 14, 21 :: int], Close = [100, 120, 90, 150], columns = Map.empty\<rparr>" 2]
  by (simp add: eval_nat_numeral float_price_numeral round_real_neg_numeral round_real_neg_quarter)

text \<open>
  The curve as the spec words it, \<open>(runningPeak[t] - price[t]) / runningPeak[t]\<close> with
  values from 0 to 1 (excluded), is not what the column holds: after 100 the price 50
  gives \<open>-0.5\<close>, not \<open>0.5\<close>; and after \<open>10^17\<close> the price 1 gives exactly \<open>-1\<close>.
\<close>

theorem drawdown_sign_counterexample:
  "columns (fst (calculate_metrics \<lparr>index = [0, 1 :: nat], Close = [100, 50], columns = Map.empty\<rparr>))
     ''Drawdown'' = Some [Fin 0, Fin (- (1/2))] \<and>
   Fin (- (1/2)) \<noteq> Fin ((100 - 50) / 100) \<and> \<not> (0 \<le> (- (1/2) :: real)) \<and>
   columns (fst (calculate_metrics
       \<lparr>index = [0, 1 :: nat], Close = [100000000000000000, 1], columns = Map.empty\<rparr>))
     ''Drawdown'' = Some [Fin 0, Fin (- 1)]"
  by (simp add: calculate_metrics_def with_metrics_def drawdown_column_def peak_column_def
      fl_sub_def round64_1_less_1e17 round64_neg_1 small_roundings)

section \<open>The peak of the maximum drawdown\<close>

text \<open>
  C4 (as the code has it): on a frame of strictly positive, finite closing prices with distinct
  dates, \<^verbatim>\<open>max_drawdown_date\<close> is the date of the first row where the drawdown is
  least, and \<^verbatim>\<open>peak_date\<close> is the date of the first row of the frame whose price
  equals the running peak at that trough, that is the maximum of the prices up to the
  trough. That row lies at or before the trough, and no earlier row has that price.
\<close>

theorem peak_date_first_occurrence:
  assumes "frame_ok df" and "Close df \<noteq> []" and "\<forall>c\<in>set (Close df). valid_price c"
  shows "\<exists>st i j. snd (calculate_metrics df) = Inr st \<and>
      i < length (Close df) \<and> max_drawdown_date st = index df ! i \<and>
      (\<forall>t<length (Close df). \<not> fl_lt (drawdown_column df ! t) (drawdown_column df ! i)) \<and>
      (\<forall>t<i. fl_lt (drawdown_column df ! i) (drawdown_column df ! t)) \<and>
      j \<le> i \<and> peak_date st = index df ! j \<and>
      Close df ! j = Max (set (take (Suc i) (Close df))) \<and>
      (\<forall>t<j. Close df ! t \<noteq> Max (set (take (Suc i) (Close df))))"
proof -
  from key_statistics_valid [OF assms] obtain st i j where
    "key_statistics df = Inr st" and i: "i < length (Close df)" and
    "max_drawdown_date st = index df ! i" and
    "\<forall>t<length (Close df). \<not> fl_lt (drawdown_column df ! t) (drawdown_column df ! i)" and
    "\<forall>t<i. fl_lt (drawdown_column df ! i) (drawdown_column df ! t)" and
    "j \<le> i" and "peak_date st = index df ! j" and
    "Close df ! j = peak_column df ! i" and "\<forall>t<j. Close df ! t \<noteq> peak_column df ! i"
    by blast
  moreover from i have "peak_column df ! i = Max (set (take (Suc i) (Close df)))"
    by (simp add: peak_column_def cummax_nth)
  ultimately show ?thesis
    by (intro exI [of _ st] exI [of _ i] exI [of _ j]) (simp add: calculate_metrics_def)
qed

theorem peak_date_first_occurrence_witness:
  "\<exists>st i j. snd (calculate_metrics
                 \<lparr>index = [0, 1, 2 :: nat], Close = [100, 100, 50], columns = Map.empty\<rparr>) = Inr st \<and>
      i < length [100, 100, 50 :: real] \<and> max_drawdown_date st = [0, 1, 2 :: nat] ! i \<and>
      (\<forall>t<length [100, 100, 50 :: real]. \<not> fl_lt
         (drawdown_column \<lparr>index = [0, 1, 2 :: nat], Close = [100, 100, 50], columns = Map.empty\<rparr> ! t)
         (drawdown_column \<lparr>index = [0, 1, 2 :: nat], Close = [100, 100, 50], columns = Map.empty\<rparr> ! i)) \<and>
      (\<forall>t<i. fl_lt
         (drawdown_column \<lparr>index = [0, 1, 2 :: nat], Close = [100, 100, 50], columns = Map.empty\<rparr> ! i)
         (drawdown_column \<lparr>index = [0, 1, 2 :: nat], Close = [100, 100, 50], columns = Map.empty\<rparr> ! t)) \<and>
      j \<le> i \<and> peak_date st = [0, 1, 2 :: nat] ! j \<and>
      [100, 100, 50 :: real] ! j = Max (set (take (Suc i) [100, 100, 50 :: real])) \<and>
      (\<forall>t<j. [100, 100, 50 :: real] ! t \<noteq> Max (set (take (Suc i) [100, 100, 50 :: real])))"
  using peak_date_first_occurrence
    [of "\<lparr>index = [0, 1, 2 :: nat], Close = [100, 100, 50], columns = Map.empty\<rparr>"]
  by (simp add: frame_ok_def small_valid_price)

text \<open>
  The claim as the spec words it takes the last such row. On the prices 100, 100, 50 the
  trough is row 2 and the running peak 100 is met at rows 0 and 1: the code answers the
  date of row 0, the spec's wording the date of row 1.
\<close>

theorem peak_date_plateau_counterexample:
  "snd (calculate_metrics
          \<lparr>index = [0, 1, 2 :: nat], Close = [100, 100, 50], columns = Map.empty\<rparr>) =
     Inr \<lparr>max_drawdown_date = 2, max_drawdown_value = Fin (- (1/2)),
          peak_date = 0, recovery_date = None\<rparr> \<and>
   [0, 1, 2 :: nat] ! spec_peak_position [100, 100, 50] 2 = 1"
  by (simp add: calculate_metrics_def key_statistics_def idxmin_def series_min_def
      drawdown_column_def peak_column_def get_loc_def rows_def spec_peak_position_def upt_rec
      fl_sub_def small_roundings)

section \<open>The rolling returns\<close>

text \<open>
  C8 (as the code has it): for each horizon \<open>k\<close> of 1, 2 and 3 years, with the 252 periods
  a year that \<^verbatim>\<open>calculate_metrics\<close> fixes (it takes no annualization factor), the column
  \<^verbatim>\<open>Return_kY\<close> has one entry per row; at a row \<open>t < k * 252\<close> the entry is absent (NaN,
  the missing value of pandas, not zero), and at a row \<open>t \<ge> k * 252\<close> it is
  \<open>price[t] / price[t - k * 252] - 1\<close> as binary64 arithmetic gives it (the quotient
  rounded, then the difference). That entry is a finite number, not below -1, whenever
  the prices are strictly positive and finite and the quotient does not exceed the largest
  binary64 number.
\<close>

theorem rolling_returns:
  assumes "(k, name) \<in> set [(1, ''Return_1Y''), (2, ''Return_2Y''), (3, ''Return_3Y'')]"
    and "t < length (Close df)"
  shows "\<exists>col. columns (fst (calculate_metrics df)) name = Some col \<and>
      length col = length (Close df) \<and>
      (t < k * 252 \<longrightarrow> col ! t = NaN) \<and>
      (k * 252 \<le> t \<longrightarrow>
         col ! t = fl_sub (fl_div (Fin (Close df ! t)) (Fin (Close df ! (t - k * 252)))) (Fin 1)) \<and>
      (k * 252 \<le> t \<and> (\<forall>c\<in>set (Close df). valid_price c) \<and>
       Close df ! t / Close df ! (t - k * 252) \<le> max_float \<longrightarrow>
         col ! t = Fin (round_real (round_real (Close df ! t / Close df ! (t - k * 252)) - 1)) \<and>
         - 1 \<le> round_real (round_real (Close df ! t / Close df ! (t - k * 252)) - 1))"
proof -
  have present: "pct_change p (Close df) ! t =
      fl_sub (fl_div (Fin (Close df ! t)) (Fin (Close df ! (t - p)))) (Fin 1)"
    if le: "p \<le> t" for p
    using le assms(2) by (simp add: pct_change_nth)
  have finite: "pct_change p (Close df) ! t =
        Fin (round_real (round_real (Close df ! t / Close df ! (t - p)) - 1)) \<and>
      - 1 \<le> round_real (round_real (Close df ! t / Close df ! (t - p)) - 1)"
    if le: "p \<le> t" and valid: "\<forall>c\<in>set (Close df). valid_price c"
      and q: "Close df ! t / Close df ! (t - p) \<le> max_float" for p
  proof -
    let ?q = "Close df ! t / Close df ! (t - p)"
    from le assms(2) have "t - p < length (Close df)" by simp
    with valid have below: "0 < Close df ! (t - p)" by (simp add: valid_price_def)
    from assms(2) valid have "0 < Close df ! t" by (simp add: valid_price_def)
    with below have q0: "0 \<le> ?q" by simp
    note fm = is_float_max_float
    from round64_between [OF is_float_0 fm q0 q] have r: "round64 ?q = Fin (round_real ?q)" .
    from round_real_between [OF is_float_0 fm q0 q]
    have r0: "0 \<le> round_real ?q" and r1: "round_real ?q \<le> max_float" .
    have neg: "is_float (- 1)" using is_float_1 by (simp add: is_float_minus)
    from r0 have lo: "- 1 \<le> round_real ?q - 1" by simp
    from r1 have hi: "round_real ?q - 1 \<le> max_float" by simp
    from round64_between [OF neg fm lo hi]
    have s: "round64 (round_real ?q - 1) = Fin (round_real (round_real ?q - 1))" .
    from round_real_between(1) [OF neg fm lo hi] have "- 1 \<le> round_real (round_real ?q - 1)" .
    with below r s present [OF le] show ?thesis
      by (simp add: fl_sub_def)
  qed
  have absent: "pct_change p (Close df) ! t = NaN" if "t < p" for p
    using that assms(2) by (simp add: pct_change_nth)
  from assms(1) consider "k = 1" "name = ''Return_1Y''" | "k = 2" "name = ''Return_2Y''"
    | "k = 3" "name = ''Return_3Y''"
    by auto
  then show ?thesis
  proof cases
    case 1
    with present [of 252] finite [of 252] absent [of 252] show ?thesis
      by (simp add: calculate_metrics_def with_metrics_def length_pct_change)
  next
    case 2
    with present [of 504] finite [of 504] absent [of 504] show ?thesis
      by (simp add: calculate_metrics_def with_metrics_def length_pct_change)
  next
    case 3
    with present [of 756] finite [of 756] absent [of 756] show ?thesis
      by (simp add: calculate_metrics_def with_metrics_def length_pct_change)
  qed
qed

theorem rolling_returns_witness:
  "(\<exists>col. columns (fst (calculate_metrics
        \<lparr>index = [0..<800], Close = map (\<lambda>i. real (Suc i)) [0..<800], columns = Map.empty\<rparr>))
        ''Return_1Y'' = Some col \<and> length col = 800 \<and> col ! 100 = NaN) \<and>
   (\<exists>col. columns (fst (calculate_metrics
        \<lparr>index = [0..<800], Close = map (\<lambda>i. real (Suc i)) [0..<800], columns = Map.empty\<rparr>))
        ''Return_1Y'' = Some col \<and> length col = 800 \<and> col ! 260 = Fin 28) \<and>
   (\<exists>col. columns (fst (calculate_metrics
        \<lparr>index = [0..<800], Close = map (\<lambda>i. real (Suc i)) [0..<800], columns = Map.empty\<rparr>))
        ''Return_2Y'' = Some col \<and> length col = 800 \<and> col ! 503 = NaN) \<and>
   (\<exists>col. columns (fst (calculate_metrics
        \<lparr>index = [0..<800], Close = map (\<lambda>i. real (Suc i)) [0..<800], columns = Map.empty\<rparr>))
        ''Return_3Y'' = Some col \<and> length col = 800 \<and>
        col ! 760 = Fin (round_real (round_real (761 / 5) - 1)) \<and>
        - 1 \<le> round_real (round_real (761 / 5) - 1))"
proof -
  let ?df = "\<lparr>index = [0..<800], Close = map (\<lambda>i. real (Suc i)) [0..<800], columns = Map.empty\<rparr>"
  have valid: "\<forall>c\<in>set (Close ?df). valid_price c" by (auto intro!: small_valid_price)
  have q1: "Close ?df ! 260 / Close ?df ! (260 - 1 * 252) \<le> max_float"
    using max_float_large by simp
  have q3: "Close ?df ! 760 / Close ?df ! (760 - 3 * 252) \<le> max_float"
    using max_float_large by simp
  from rolling_returns [of 1 "''Return_1Y''" 100 ?df] rolling_returns [of 1 "''Return_1Y''" 260 ?df]
    rolling_returns [of 2 "''Return_2Y''" 503 ?df] rolling_returns [of 3 "''Return_3Y''" 760 ?df]
    valid q1 q3
  show ?thesis by (simp add: round_real_numeral del: One_nat_def) blast
qed

text \<open>
  The claim as the spec words it, a finite return at every later row for strictly positive
  finite prices, fails where the quotient overflows: after 252 rows at the price
  \<open>2^-600\<close> the price \<open>2^600\<close> gives an infinite one-year return.
\<close>

theorem rolling_return_overflows:
  "float_price tiny_price \<and> float_price huge_price \<and>
   the (columns (fst (calculate_metrics
          \<lparr>index = [0..<253], Close = replicate 252 tiny_price @ [huge_price],
           columns = Map.empty\<rparr>)) ''Return_1Y'') ! 252 = PInf"
proof -
  let ?cl = "replicate 252 tiny_price @ [huge_price]"
  have len: "length ?cl = 253" by simp
  have last: "?cl ! 252 = huge_price" by (simp add: nth_append)
  have first: "?cl ! (252 - 252) = tiny_price" by (simp add: nth_append)
  have "252 < length ?cl" by simp
  from pct_change_nth [OF this, of 252]
  have "pct_change 252 ?cl ! 252 = fl_sub (fl_div (Fin (?cl ! 252)) (Fin (?cl ! (252 - 252)))) (Fin 1)"
    by simp
  then have "pct_change 252 ?cl ! 252 = PInf" by (simp only: last first huge_return)
  then show ?thesis
    by (simp add: calculate_metrics_def with_metrics_def float_price_tiny float_price_huge)
qed

section \<open>Effects on the caller's data\<close>

text \<open>
  C10 (as the code has it): \<^verbatim>\<open>compute_stock_score\<close> assigns nothing and is a function of
  its arguments. \<^verbatim>\<open>calculate_metrics\<close> changes the frame it is given: it leaves the index,
  the \<^verbatim>\<open>Close\<close> column and every other column as they are and assigns the five columns
  \<^verbatim>\<open>Peak\<close>, \<^verbatim>\<open>Drawdown\<close>, \<^verbatim>\<open>Return_1Y\<close>, \<^verbatim>\<open>Return_2Y\<close> and \<^verbatim>\<open>Return_3Y\<close> in place.
  Nothing is kept between calls: the statistics and the five columns are computed from the
  index and the closing prices alone, so a second call on the frame a first call left
  gives the same frame and the same statistics.
\<close>

theorem calculate_metrics_frame_effect:
  "index (fst (calculate_metrics df)) = index df \<and>
   Close (fst (calculate_metrics df)) = Close df \<and>
   dom (columns (fst (calculate_metrics df))) =
     dom (columns df) \<union> {''Peak'', ''Drawdown'', ''Return_1Y'', ''Return_2Y'', ''Return_3Y''} \<and>
   (name \<notin> {''Peak'', ''Drawdown'', ''Return_1Y'', ''Return_2Y'', ''Return_3Y''} \<longrightarrow>
      columns (fst (calculate_metrics df)) name = columns df name) \<and>
   calculate_metrics (fst (calculate_metrics df)) = calculate_metrics df \<and>
   (index df' = index df \<and> Close df' = Close df \<longrightarrow>
      snd (calculate_metrics df') = snd (calculate_metrics df) \<and>
      (\<forall>c\<in>{''Peak'', ''Drawdown'', ''Return_1Y'', ''Return_2Y'', ''Return_3Y''}.
         columns (fst (calculate_metrics df')) c = columns (fst (calculate_metrics df)) c))"
proof (intro conjI impI)
  show "index (fst (calculate_metrics df)) = index df"
    by (simp add: calculate_metrics_def with_metrics_fields)
  show "Close (fst (calculate_metrics df)) = Close df"
    by (simp add: calculate_metrics_def with_metrics_fields)
  show "dom (columns (fst (calculate_metrics df))) =
     dom (columns df) \<union> {''Peak'', ''Drawdown'', ''Return_1Y'', ''Return_2Y'', ''Return_3Y''}"
    by (simp only: calculate_metrics_def fst_conv dom_with_metrics)
  show "columns (fst (calculate_metrics df)) name = columns df name"
    if "name \<notin> {''Peak'', ''Drawdown'', ''Return_1Y'', ''Return_2Y'', ''Return_3Y''}"
    using other_columns_kept [OF that] by (simp only: calculate_metrics_def fst_conv)
  show "calculate_metrics (fst (calculate_metrics df)) = calculate_metrics df"
    by (simp only: calculate_metrics_def fst_conv with_metrics_again
        key_statistics_reads [OF with_metrics_fields(1) with_metrics_fields(2)])
next
  assume h: "index df' = index df \<and> Close df' = Close df"
  then have a: "index df' = index df" and b: "Close df' = Close df" by simp_all
  from key_statistics_reads [OF a b]
  show "snd (calculate_metrics df') = snd (calculate_metrics df)"
    by (simp only: calculate_metrics_def snd_conv)
  from metric_columns_recomputed [OF b]
  show "\<forall>c\<in>{''Peak'', ''Drawdown'', ''Return_1Y'', ''Return_2Y'', ''Return_3Y''}.
         columns (fst (calculate_metrics df')) c = columns (fst (calculate_metrics df)) c"
    by (simp only: calculate_metrics_def fst_conv)
qed

theorem calculate_metrics_frame_effect_witness:
  "columns (fst (calculate_metrics
      \<lparr>index = [0, 1 :: nat], Close = [100, 50], columns = [''Volume'' \<mapsto> [Fin 7, Fin 9]]\<rparr>)) ''Volume'' =
     Some [Fin 7, Fin 9] \<and>
   snd (calculate_metrics
      \<lparr>index = [0, 1 :: nat], Close = [100, 50], columns = [''Drawdown'' \<mapsto> [NaN]]\<rparr>) =
   snd (calculate_metrics
      \<lparr>index = [0, 1 :: nat], Close = [100, 50], columns = [''Volume'' \<mapsto> [Fin 7, Fin 9]]\<rparr>) \<and>
   columns (fst (calculate_metrics
      \<lparr>index = [0, 1 :: nat], Close = [100, 50], columns = [''Drawdown'' \<mapsto> [NaN]]\<rparr>)) ''Drawdown'' =
   columns (fst (calculate_metrics
      \<lparr>index = [0, 1 :: nat], Close = [100, 50], columns = [''Volume'' \<mapsto> [Fin 7, Fin 9]]\<rparr>)) ''Drawdown''"
  using calculate_metrics_frame_effect
    [of "\<lparr>index = [0, 1 :: nat], Close = [100, 50], columns = [''Volume'' \<mapsto> [Fin 7, Fin 9]]\<rparr>"
        "''Volume''"
        "\<lparr>index = [0, 1 :: nat], Close = [100, 50], columns = [''Drawdown'' \<mapsto> [NaN]]\<rparr>"]
  by simp

text \<open>
  The claim as the spec words it, that the caller's frame is not changed in place, fails
  on any frame: a frame without a \<^verbatim>\<open>Peak\<close> column has one after the call.
\<close>

theorem calculate_metrics_changes_frame:
  "columns \<lparr>index = [0, 1 :: nat], Close = [100, 50], columns = Map.empty\<rparr> ''Peak'' = None \<and>
   columns (fst (calculate_metrics \<lparr>index = [0, 1 :: nat], Close = [100, 50], columns = Map.empty\<rparr>))
     ''Peak'' = Some [Fin 100, Fin 100] \<and>
   fst (calculate_metrics \<lparr>index = [0, 1 :: nat], Close = [100, 50], columns = Map.empty\<rparr>) \<noteq>
     \<lparr>index = [0, 1 :: nat], Close = [100, 50], columns = Map.empty\<rparr>"
proof -
  let ?df = "\<lparr>index = [0, 1 :: nat], Close = [100, 50], columns = Map.empty\<rparr>"
  have before: "columns ?df ''Peak'' = None" by simp
  have after: "columns (fst (calculate_metrics ?df)) ''Peak'' = Some [Fin 100, Fin 100]"
    by (simp add: calculate_metrics_def with_metrics_def peak_column_def)
  from before after have "fst (calculate_metrics ?df) \<noteq> ?df" by auto
  with before after show ?thesis by blast
qed


end
